theory Spec2Isabelle
  imports Complex_Main "HOL-Library.AList" "HOL-Library.Sublist"
begin

section \<open>Python values and text\<close>

text \<open>
  Strings are lists of characters; a character stands for one code point below 256.
  Python integers are unbounded, so they are \<^typ>\<open>int\<close>.
\<close>

definition digit_char :: "nat \<Rightarrow> char" where
  "digit_char d = ''0123456789'' ! d"

text \<open>\<^verbatim>\<open>str(n)\<close> for a non-negative integer: its decimal digits, most significant first.\<close>

fun str_nat :: "nat \<Rightarrow> string" where
  "str_nat n = (if n < 10 then [digit_char n] else str_nat (n div 10) @ [digit_char (n mod 10)])"

declare str_nat.simps [simp del]

text \<open>\<^verbatim>\<open>str(i)\<close>, and what an f-string writes for \<^verbatim>\<open>{i}\<close>.\<close>

definition str_int :: "int \<Rightarrow> string" where
  "str_int i = (if i < 0 then CHR ''-'' # str_nat (nat (- i)) else str_nat (nat i))"

text \<open>
  The format specification \<^verbatim>\<open>{i:0Wd}\<close>: the sign, then the digits padded with zeros on
  the left up to a total width of \<open>W\<close>; a longer number is written in full.
\<close>

definition format_0d :: "nat \<Rightarrow> int \<Rightarrow> string" where
  "format_0d width i =
     (if i < 0
      then CHR ''-'' # replicate (width - 1 - length (str_nat (nat (- i)))) CHR ''0''
             @ str_nat (nat (- i))
      else replicate (width - length (str_nat (nat i))) CHR ''0'' @ str_nat (nat i))"

text \<open>\<^verbatim>\<open>str.isspace\<close> on one character, for the code points below 256.\<close>

definition py_isspace :: "char \<Rightarrow> bool" where
  "py_isspace c \<longleftrightarrow>
     c \<in> {CHR 0x09, CHR 0x0A, CHR 0x0B, CHR 0x0C, CHR 0x0D, CHR 0x1C, CHR 0x1D, CHR 0x1E,
          CHR 0x1F, CHR 0x20, CHR 0x85, CHR 0xA0}"

text \<open>\<^verbatim>\<open>s.strip()\<close>: whitespace removed at both ends.\<close>

definition strip :: "string \<Rightarrow> string" where
  "strip s = rev (dropWhile py_isspace (rev (dropWhile py_isspace s)))"

text \<open>
  \<^verbatim>\<open>s.split(sep)\<close> for a one-character separator: every occurrence separates, so the
  result has one more element than there are separators and is never empty.
\<close>

fun split_on :: "char \<Rightarrow> string \<Rightarrow> string list" where
  "split_on sep [] = [[]]"
| "split_on sep (c # cs) =
     (if c = sep then [] # split_on sep cs
      else (case split_on sep cs of [] \<Rightarrow> [[c]] | t # ts \<Rightarrow> (c # t) # ts))"

text \<open>\<^verbatim>\<open>sep.join(parts)\<close>.\<close>

fun join :: "string \<Rightarrow> string list \<Rightarrow> string" where
  "join sep [] = []"
| "join sep [p] = p"
| "join sep (p # q # ps) = p @ sep @ join sep (q # ps)"

text \<open>The exceptions the modelled code can meet; each is a value.\<close>

datatype py_exn =
  ValueError | TypeError | ZeroDivisionError | OverflowError | IndexError | OSError
  | TimeoutExpired

text \<open>
  A Python float is an IEEE binary64 number: a finite value (kept as the rational it
  denotes), an infinity or a NaN. The sign of zero is not kept.
\<close>

datatype pyfloat = Fin rat | PosInf | NegInf | NaN

text \<open>A parameter value: the scalars a parameter dictionary holds.\<close>

datatype pyval = PInt int | PFloat pyfloat | PBool bool | PStr string

text \<open>
  The interpreter's conversions between text and numbers are taken as given:
  \<^verbatim>\<open>int(s)\<close> and \<^verbatim>\<open>float(s)\<close> on a string, which return a number or raise, and
  \<^verbatim>\<open>str(x)\<close> on a float. So is the join of two paths by \<^verbatim>\<open>pathlib\<close>,
  \<^verbatim>\<open>str(Path(a) / b)\<close> for two strings.
\<close>

record builtins =
  py_int :: "string \<Rightarrow> py_exn + int"
  py_float :: "string \<Rightarrow> py_exn + pyfloat"
  float_str :: "pyfloat \<Rightarrow> string"
  path_join :: "string \<Rightarrow> string \<Rightarrow> string"

text \<open>\<^verbatim>\<open>str(value)\<close>.\<close>

definition py_str :: "builtins \<Rightarrow> pyval \<Rightarrow> string" where
  "py_str B v =
     (case v of
        PInt i \<Rightarrow> str_int i
      | PFloat x \<Rightarrow> float_str B x
      | PBool b \<Rightarrow> (if b then ''True'' else ''False'')
      | PStr s \<Rightarrow> s)"

text \<open>
  A dictionary keeps its keys in insertion order: it is an association list, read with
  \<^const>\<open>map_of\<close> and written with \<^const>\<open>AList.update\<close>, which replaces the value of a
  key in place and appends a new key at the end, as assignment to \<^verbatim>\<open>d[k]\<close> does.
\<close>

type_synonym params = "(string \<times> pyval) list"

section \<open>The worker of one run (simulation\_worker.py)\<close>

text \<open>The payload of a worker's \<^verbatim>\<open>finished\<close> signal.\<close>

record results =
  res_exp_name :: string
  res_exp_dir :: string
  res_zarr_path :: string
  res_final_step :: int
  res_parameters :: params
  res_stdout :: string
  res_stderr :: string
  res_success :: bool

text \<open>The three signals of a worker.\<close>

datatype signal = Progress int string | Finished results | Error string

text \<open>A log file of the run: not opened yet, open, or closed.\<close>

datatype file_handle = Unopened | Opened | Closed

text \<open>
  The attributes of a \<^verbatim>\<open>SimulationWorker\<close>, and the signals it has emitted so far.
  \<open>process\<close> holds the process id once the child is spawned.
\<close>

record worker =
  parameters :: params
  worker_output_dir :: string
  exp_name :: string
  sim_time :: pyval
  write_frequency :: pyval
  exp_dir :: string
  zarr_path :: string
  logs_dir :: string
  metadata_path :: string
  process :: "int option"
  temp_script :: "string option"
  monitoring :: bool
  stdout_log :: file_handle
  stderr_log :: file_handle
  emitted :: "signal list"

text \<open>
  \<^verbatim>\<open>__init__\<close>. The paths are joined by \<^verbatim>\<open>pathlib\<close>; joining the output directory
  with an experiment name that is not a string raises \<^verbatim>\<open>TypeError\<close>.
\<close>

definition init_worker :: "builtins \<Rightarrow> params \<Rightarrow> string \<Rightarrow> py_exn + worker" where
  "init_worker B ps out_dir =
     (case (case map_of ps ''exp_name'' of
              None \<Rightarrow> Inr ''unnamed_run'' | Some (PStr s) \<Rightarrow> Inr s | Some v \<Rightarrow> Inl TypeError) of
        Inl e \<Rightarrow> Inl e
      | Inr name \<Rightarrow>
          Inr \<lparr>parameters = ps,
               worker_output_dir = out_dir,
               exp_name = name,
               sim_time = (case map_of ps ''sim_time'' of None \<Rightarrow> PFloat (Fin 100) | Some v \<Rightarrow> v),
               write_frequency =
                 (case map_of ps ''write_frequency'' of None \<Rightarrow> PInt 10 | Some v \<Rightarrow> v),
               exp_dir = path_join B out_dir name,
               zarr_path = path_join B (path_join B out_dir name) ''data.zarr'',
               logs_dir = path_join B (path_join B out_dir name) ''logs'',
               metadata_path = path_join B (path_join B out_dir name) ''run_metadata.json'',
               process = None,
               temp_script = None,
               monitoring = False,
               stdout_log = Unopened,
               stderr_log = Unopened,
               emitted = []\<rparr>)"

section \<open>Sweep expansion (main\_window.py)\<close>

text \<open>
  \<^verbatim>\<open>_convert_to_number\<close>: \<^verbatim>\<open>int\<close> when the text has no dot, \<^verbatim>\<open>float\<close> otherwise;
  a \<^verbatim>\<open>ValueError\<close> is caught and the text returned as it is; any other exception
  leaves the function.
\<close>

definition convert_to_number :: "builtins \<Rightarrow> string \<Rightarrow> py_exn + pyval" where
  "convert_to_number B value_str =
     (case (if CHR ''.'' \<notin> set value_str
            then map_sum id PInt (py_int B value_str)
            else map_sum id PFloat (py_float B value_str)) of
        Inr v \<Rightarrow> Inr v
      | Inl ValueError \<Rightarrow> Inr (PStr value_str)
      | Inl e \<Rightarrow> Inl e)"

text \<open>
  The list comprehension
  \<^verbatim>\<open>[self._convert_to_number(v.strip()) for v in value_str.split(',')]\<close>:
  the first exception ends it.
\<close>

fun convert_tokens :: "builtins \<Rightarrow> string list \<Rightarrow> py_exn + pyval list" where
  "convert_tokens B [] = Inr []"
| "convert_tokens B (v # vs) =
     (case convert_to_number B (strip v) of
        Inl e \<Rightarrow> Inl e
      | Inr x \<Rightarrow> (case convert_tokens B vs of Inl e \<Rightarrow> Inl e | Inr xs \<Rightarrow> Inr (x # xs)))"

text \<open>
  A thread of a batch, as far as the window looks at it: the name and the parameters of
  the run it was started for, and whether \<^verbatim>\<open>quit()\<close> has been called on it.
\<close>

record sim_thread =
  thread_exp_name :: string
  thread_parameters :: params
  quit_requested :: bool

text \<open>The message boxes the batch code shows, with the numbers they display.\<close>

datatype dialog =
  NoCombinationsWarning
  | RunQuestion int
  | CancelQuestion int int nat
  | BatchCancelledInfo int int
  | BatchCompleteInfo int string
  | SimulationErrorCritical string

datatype reply = Yes | No

text \<open>The fields of the main window that batch execution reads and writes.\<close>

record main_window =
  current_params :: params
  sweep_parameters :: "(string \<times> pyval list) list"
  base_parameters :: params
  parameter_combinations :: "params list"
  simulation_threads :: "(sim_thread \<times> worker) list"
  completed_combinations :: int
  total_combinations :: int
  batch_output_folder :: string
  is_cancelled :: bool
  output_dir :: string
  run_button_enabled :: bool
  cancel_button_visible :: bool
  progress_bar_visible :: bool
  progress_bar_maximum :: int
  progress_bar_value :: int
  status_message :: string
  dialogs :: "dialog list"

text \<open>
  The body of the loop of \<^verbatim>\<open>detect_sweep_parameters\<close> for one item of
  \<^verbatim>\<open>current_params\<close>. The two assignments of the \<^verbatim>\<open>try\<close> block are made in
  order, so an empty value list would be stored before \<^verbatim>\<open>value_list[0]\<close> raises.
\<close>

definition detect_param :: "builtins \<Rightarrow> main_window \<Rightarrow> string \<times> pyval \<Rightarrow> main_window" where
  "detect_param B w item =
     (let param_name = fst item; value = snd item; value_str = py_str B value in
      if CHR '','' \<in> set value_str then
        (case convert_tokens B (split_on CHR '','' value_str) of
           Inr (v0 # vs) \<Rightarrow>
             w\<lparr>sweep_parameters := AList.update param_name (v0 # vs) (sweep_parameters w),
               base_parameters := AList.update param_name v0 (base_parameters w)\<rparr>
         | Inr [] \<Rightarrow>
             w\<lparr>sweep_parameters := AList.update param_name [] (sweep_parameters w),
               base_parameters := AList.update param_name value (base_parameters w)\<rparr>
         | Inl e \<Rightarrow>
             w\<lparr>base_parameters := AList.update param_name value (base_parameters w)\<rparr>)
      else w\<lparr>base_parameters := AList.update param_name value (base_parameters w)\<rparr>)"

definition detect_sweep_parameters :: "builtins \<Rightarrow> main_window \<Rightarrow> main_window \<times> bool" where
  "detect_sweep_parameters B w =
     (let w' = foldl (detect_param B) (w\<lparr>sweep_parameters := [], base_parameters := []\<rparr>)
                 (current_params w)
      in (w', sweep_parameters w' \<noteq> []))"

text \<open>
  \<^verbatim>\<open>itertools.product(*pools)\<close>, as the library documents it: starting from the one
  empty tuple, every pool in turn extends every partial result by each of its elements.
\<close>

definition itertools_product :: "'a list list \<Rightarrow> 'a list list" where
  "itertools_product pools =
     foldl (\<lambda>result pool. concat (map (\<lambda>x. map (\<lambda>y. x @ [y]) pool) result)) [[]] pools"

text \<open>
  \<^verbatim>\<open>generate_parameter_combinations\<close>. \<^verbatim>\<open>param_values\<close> holds the value list of
  each key of \<^verbatim>\<open>sweep_parameters\<close>, in key order.
\<close>

definition generate_parameter_combinations :: "main_window \<Rightarrow> params list" where
  "generate_parameter_combinations w =
     (if sweep_parameters w = [] then [base_parameters w]
      else
        (let param_names = map fst (sweep_parameters w);
             param_values = map snd (sweep_parameters w)
         in map (\<lambda>value_combination.
                   foldl (\<lambda>combination (name, value). AList.update name value combination)
                     (base_parameters w) (zip param_names value_combination))
              (itertools_product param_values)))"

section \<open>Batch launch, completion and cancellation (main\_window.py)\<close>

text \<open>
  The if/elif chain of \<^verbatim>\<open>launch_batch_simulation\<close> that names one run, for the
  0-based indices of the two loops.
\<close>

definition batch_exp_name :: "string \<Rightarrow> nat \<Rightarrow> int \<Rightarrow> nat \<Rightarrow> nat \<Rightarrow> string" where
  "batch_exp_name base_exp_name n_combinations replicates combo_idx rep_idx =
     (if n_combinations > 1 \<and> replicates > 1 then
        base_exp_name @ ''_combo'' @ format_0d 3 (int combo_idx + 1)
          @ ''_rep'' @ format_0d 2 (int rep_idx + 1)
      else if n_combinations > 1 then
        base_exp_name @ ''_combo'' @ format_0d 3 (int combo_idx + 1)
      else if replicates > 1 then
        base_exp_name @ ''_rep'' @ format_0d 2 (int rep_idx + 1)
      else base_exp_name)"

text \<open>
  The two nested loops: \<^verbatim>\<open>enumerate(self.parameter_combinations)\<close> outside,
  \<^verbatim>\<open>range(replicates)\<close> inside. Each run gets a copy of its combination with
  \<^verbatim>\<open>exp_name\<close> set, and its thread is appended to the list.
\<close>

definition launch_threads :: "string \<Rightarrow> params list \<Rightarrow> int \<Rightarrow> sim_thread list" where
  "launch_threads base_exp_name combinations replicates =
     concat (map (\<lambda>(combo_idx, ps).
               map (\<lambda>rep_idx.
                      (let exp_name = batch_exp_name base_exp_name (length combinations)
                                        replicates combo_idx rep_idx
                       in \<lparr>thread_exp_name = exp_name,
                           thread_parameters = AList.update ''exp_name'' (PStr exp_name) ps,
                           quit_requested = False\<rparr>))
                 [0..<nat replicates])
             (enumerate 0 combinations))"

text \<open>
  The end of the loop body, for the runs in launch order: the worker is constructed with
  \<^verbatim>\<open>SimulationWorker(params_copy, str(self.batch_output_folder))\<close>, its thread is
  started and the pair is appended to the list. An exception of the constructor ends the
  loops, with the pairs appended so far.
\<close>

fun start_threads ::
  "builtins \<Rightarrow> string \<Rightarrow> sim_thread list \<Rightarrow> py_exn option \<times> (sim_thread \<times> worker) list" where
  "start_threads B folder [] = (None, [])"
| "start_threads B folder (t # ts) =
     (case init_worker B (thread_parameters t) folder of
        Inl e \<Rightarrow> (Some e, [])
      | Inr wk \<Rightarrow>
          (case start_threads B folder ts of (raised, started) \<Rightarrow> (raised, (t, wk) # started)))"

text \<open>
  \<^verbatim>\<open>launch_batch_simulation\<close>. The base name is the value found in the parameters,
  whatever its type. The three formatted names contain its text; the last branch of the
  chain passes the value itself on, as the \<^verbatim>\<open>exp_name\<close> of the one run. The result is
  the exception that leaves the function, if any, and the window.
\<close>

definition launch_batch_simulation ::
  "builtins \<Rightarrow> main_window \<Rightarrow> pyval \<Rightarrow> int \<Rightarrow> py_exn option \<times> main_window" where
  "launch_batch_simulation B w base_exp_name replicates =
     (let w1 = w\<lparr>run_button_enabled := False,
                  cancel_button_visible := True,
                  progress_bar_visible := True,
                  progress_bar_maximum := total_combinations w,
                  progress_bar_value := 0,
                  simulation_threads := [],
                  status_message :=
                    (if length (parameter_combinations w) > 1 \<or> replicates > 1 then
                       ''Starting batch: '' @ str_int (total_combinations w) @ '' simulations (''
                         @ str_int (int (length (parameter_combinations w))) @ '' combinations ''
                         @ [CHR 0xD7] @ '' '' @ str_int replicates @ '' replicates)''
                     else ''Starting simulation...'')\<rparr>;
          threads = launch_threads (py_str B base_exp_name) (parameter_combinations w1) replicates;
          runs = (if length (parameter_combinations w1) > 1 \<or> replicates > 1 then threads
                  else map (\<lambda>t. t\<lparr>thread_parameters :=
                                      AList.update ''exp_name'' base_exp_name (thread_parameters t)\<rparr>)
                         threads);
          started = start_threads B (batch_output_folder w1) runs
      in (fst started, w1\<lparr>simulation_threads := snd started\<rparr>))"

text \<open>
  \<^verbatim>\<open>run_simulation\<close> from the detection of sweep parameters on (the validation
  dialogue before it does not touch the batch state). \<open>replicates\<close> is the value of the
  spin box, \<open>stamp\<close> the formatted current time and \<open>answer\<close> the user's reply to the
  confirmation. The batch folder is taken to be created without an error. The result is
  the exception that leaves the function, if any, and the window.
\<close>

definition run_simulation ::
  "builtins \<Rightarrow> main_window \<Rightarrow> int \<Rightarrow> string \<Rightarrow> reply \<Rightarrow> py_exn option \<times> main_window" where
  "run_simulation B w0 replicates stamp answer =
     (let (w1, is_sweep) = detect_sweep_parameters B w0;
          w2 = w1\<lparr>parameter_combinations := generate_parameter_combinations w1\<rparr>;
          w3 = w2\<lparr>total_combinations := int (length (parameter_combinations w2)) * replicates,
                  completed_combinations := 0,
                  is_cancelled := False\<rparr>
      in if total_combinations w3 = 0
         then (None, w3\<lparr>dialogs := dialogs w3 @ [NoCombinationsWarning]\<rparr>)
         else
           (let base_exp_name =
                  (case map_of (current_params w3) ''exp_name'' of
                     None \<Rightarrow> PStr ''unnamed_run'' | Some v \<Rightarrow> v);
                w4 = w3\<lparr>batch_output_folder :=
                          (if is_sweep \<or> replicates > 1
                           then path_join B (output_dir w3) (py_str B base_exp_name @ ''_'' @ stamp)
                           else output_dir w3)\<rparr>;
                w5 = w4\<lparr>dialogs := dialogs w4 @ [RunQuestion (total_combinations w4)]\<rparr>
            in if answer = Yes then launch_batch_simulation B w5 base_exp_name replicates
               else (None, w5)))"

text \<open>\<^verbatim>\<open>finalize_batch\<close>.\<close>

definition finalize_batch :: "main_window \<Rightarrow> bool \<Rightarrow> main_window" where
  "finalize_batch w was_cancelled =
     w\<lparr>run_button_enabled := True,
       cancel_button_visible := False,
       progress_bar_visible := False,
       dialogs := dialogs w @
         [if was_cancelled
          then BatchCancelledInfo (completed_combinations w) (total_combinations w)
          else BatchCompleteInfo (completed_combinations w) (batch_output_folder w)]\<rparr>"

text \<open>
  \<^verbatim>\<open>cancel_batch\<close>. The flag is set first; then the user is asked. \<open>running\<close> is
  what \<^verbatim>\<open>isRunning()\<close> answers for each thread of the list. On \<^verbatim>\<open>Yes\<close> every
  running thread is asked to quit and waited for up to a second, and the result of the
  waiting is not looked at. The loop does not use the worker of the pair.
\<close>

definition cancel_batch :: "main_window \<Rightarrow> bool list \<Rightarrow> reply \<Rightarrow> main_window" where
  "cancel_batch w running answer =
     (let w1 = w\<lparr>is_cancelled := True\<rparr>;
          w2 = w1\<lparr>dialogs := dialogs w1 @
                   [CancelQuestion (completed_combinations w1) (total_combinations w1)
                      (length (filter id (take (length (simulation_threads w1)) running)))]\<rparr>
      in if answer = Yes then
           finalize_batch
             (w2\<lparr>simulation_threads :=
                    map (\<lambda>(i, (t, wk)).
                           if i < length running \<and> running ! i
                           then (t\<lparr>quit_requested := True\<rparr>, wk)
                           else (t, wk))
                      (enumerate 0 (simulation_threads w2)),
                 status_message := ''Batch cancelled''\<rparr>)
             True
         else w2)"

text \<open>\<^verbatim>\<open>on_batch_simulation_finished\<close>.\<close>

definition on_batch_simulation_finished :: "main_window \<Rightarrow> results \<Rightarrow> main_window" where
  "on_batch_simulation_finished w res =
     (if is_cancelled w then w
      else
        (let w1 = w\<lparr>completed_combinations := completed_combinations w + 1\<rparr>;
             w2 = w1\<lparr>progress_bar_value := completed_combinations w1,
                     status_message :=
                       ''Completed '' @ str_int (completed_combinations w1) @ ''/''
                         @ str_int (total_combinations w1) @ '': '' @ res_exp_name res\<rparr>
         in if completed_combinations w2 \<ge> total_combinations w2
            then finalize_batch w2 False else w2))"

text \<open>\<^verbatim>\<open>on_batch_simulation_error\<close>; \<^verbatim>\<open>error_message[:500]\<close> is \<open>take 500\<close>.\<close>

definition on_batch_simulation_error :: "main_window \<Rightarrow> string \<Rightarrow> main_window" where
  "on_batch_simulation_error w error_message =
     (if is_cancelled w then w
      else
        (let w1 = w\<lparr>completed_combinations := completed_combinations w + 1\<rparr>;
             w2 = w1\<lparr>progress_bar_value := completed_combinations w1\<rparr>;
             w3 = (if total_combinations w2 = 1
                   then w2\<lparr>dialogs := dialogs w2 @
                          [SimulationErrorCritical
                             (''Simulation failed!'' @ [CHR 0x0A, CHR 0x0A]
                                @ take 500 error_message @ ''...'')]\<rparr>
                   else w2)
         in if completed_combinations w3 \<ge> total_combinations w3
            then finalize_batch w3 False else w3))"

text \<open>
  The signals and clicks reach the window one at a time, through the event loop of the
  GUI thread: a batch is a sequence of events, in whatever order the runs and the user
  produce them.
\<close>

datatype gui_event =
  WorkerFinished results
  | WorkerError string
  | CancelClicked "bool list" reply

fun handle_event :: "main_window \<Rightarrow> gui_event \<Rightarrow> main_window" where
  "handle_event w (WorkerFinished res) = on_batch_simulation_finished w res"
| "handle_event w (WorkerError msg) = on_batch_simulation_error w msg"
| "handle_event w (CancelClicked running answer) = cancel_batch w running answer"

definition handle_events :: "main_window \<Rightarrow> gui_event list \<Rightarrow> main_window" where
  "handle_events w evs = foldl handle_event w evs"

text \<open>Whether an event is the end of a run, and how often the batch was finalized.\<close>

fun is_terminal_event :: "gui_event \<Rightarrow> bool" where
  "is_terminal_event (WorkerFinished res) = True"
| "is_terminal_event (WorkerError msg) = True"
| "is_terminal_event (CancelClicked running answer) = False"

fun is_finalization :: "dialog \<Rightarrow> bool" where
  "is_finalization (BatchCancelledInfo c t) = True"
| "is_finalization (BatchCompleteInfo c folder) = True"
| "is_finalization d = False"

definition finalizations :: "main_window \<Rightarrow> dialog list" where
  "finalizations w = filter is_finalization (dialogs w)"

section \<open>Exit-code classification (simulation\_worker.py)\<close>

text \<open>
  \<^verbatim>\<open>SimulationWorker._interpret_exit_code\<close>: an if/elif chain over the exit
  code, kept in the order of the source. The access-violation message is one string with
  embedded newlines.
\<close>

definition access_violation_msg :: string where
  "access_violation_msg =
     ''Windows ACCESS_VIOLATION - Known CC3D crash issue'' @ [CHR 0x0A] @
     ''This is a known CC3D Windows bug (exit code 3221225477).'' @ [CHR 0x0A] @
     ''The crash may be related to:'' @ [CHR 0x0A] @
     ''  - Cumulative memory corruption after ~40 steps'' @ [CHR 0x0A] @
     ''  - Zarr write triggering corrupted state'' @ [CHR 0x0A] @
     ''  - Windows-specific file locking issues'' @ [CHR 0x0A] @
     ''Try: Reduce write frequency or use smaller lattice size''"

definition interpret_exit_code :: "int \<Rightarrow> string" where
  "interpret_exit_code exit_code =
     (if exit_code = 0 then ''Success''
      else if exit_code = 1 then ''Python exception (check stderr)''
      else if exit_code = - 11 then ''Segmentation fault (SIGSEGV) - CC3D crashed''
      else if exit_code = 3221225477 \<or> exit_code = - 1073741819 then access_violation_msg
      else if exit_code < 0 then ''Process killed by signal '' @ str_int (- exit_code)
      else ''Unknown error (exit code '' @ str_int exit_code @ '')'')"

section \<open>Auxiliary notions for the statements\<close>

text \<open>Decimal digits, and the number a digit string denotes.\<close>

definition is_digit :: "char \<Rightarrow> bool" where
  "is_digit c \<longleftrightarrow> c \<in> set ''0123456789''"

definition digit_val :: "char \<Rightarrow> nat" where
  "digit_val c = of_char c - 48"

definition digits_value :: "string \<Rightarrow> nat" where
  "digits_value s = foldl (\<lambda>a c. 10 * a + digit_val c) 0 s"

text \<open>
  Conversions restricted to unsigned decimal integer literals (every other text is
  rejected with \<^verbatim>\<open>ValueError\<close>), and the join of paths written without redundant
  separators or dot components (an empty name leaves the directory as it is, an absolute
  name replaces it), for evaluating examples.
\<close>

definition literal_builtins :: builtins where
  "literal_builtins =
     \<lparr>py_int = (\<lambda>s. if s \<noteq> [] \<and> list_all is_digit s then Inr (int (digits_value s))
                     else Inl ValueError),
      py_float = (\<lambda>s. Inl ValueError),
      float_str = (\<lambda>x. ''nan''),
      path_join = (\<lambda>dir name. if name = [] then dir
                                else if hd name = CHR ''/'' then name
                                else dir @ ''/'' @ name)\<rparr>"

text \<open>
  A window as it is before a run is requested, with the parameters
  \<^verbatim>\<open>{jee: "2,4", jem: 3, exp_name: "x"}\<close>, and a finished run's payload.
\<close>

definition example_window :: main_window where
  "example_window =
     \<lparr>current_params = [(''jee'', PStr ''2,4''), (''jem'', PInt 3), (''exp_name'', PStr ''x'')],
      sweep_parameters = [], base_parameters = [], parameter_combinations = [],
      simulation_threads = [], completed_combinations = 0, total_combinations = 0,
      batch_output_folder = [], is_cancelled = False, output_dir = ''experiments'',
      run_button_enabled = True, cancel_button_visible = False,
      progress_bar_visible = False, progress_bar_maximum = 100, progress_bar_value = 0,
      status_message = [], dialogs = []\<rparr>"

definition example_results :: results where
  "example_results =
     \<lparr>res_exp_name = ''x_combo001'',
      res_exp_dir = ''experiments/x_20250101_120000/x_combo001'',
      res_zarr_path = ''experiments/x_20250101_120000/x_combo001/data.zarr'',
      res_final_step = 100,
      res_parameters = [(''jee'', PInt 2), (''jem'', PInt 3), (''exp_name'', PStr ''x_combo001'')],
      res_stdout = [], res_stderr = [], res_success = True\<rparr>"

text \<open>The example window after the run was requested with one replicate and confirmed.\<close>

definition example_batch :: main_window where
  "example_batch =
     snd (run_simulation literal_builtins example_window 1 ''20250101_120000'' Yes)"

text \<open>A cancel request that the user confirmed.\<close>

fun is_confirmed_cancel :: "gui_event \<Rightarrow> bool" where
  "is_confirmed_cancel (CancelClicked running answer) = (answer = Yes)"
| "is_confirmed_cancel e = False"

text \<open>
  The alternatives that \<^verbatim>\<open>detect_sweep_parameters\<close> finds in one value: the converted
  tokens, when the text of the value has a comma and the conversion of its tokens does not
  raise.
\<close>

definition sweep_values :: "builtins \<Rightarrow> pyval \<Rightarrow> pyval list option" where
  "sweep_values B value =
     (if CHR '','' \<in> set (py_str B value)
      then (case convert_tokens B (split_on CHR '','' (py_str B value)) of
              Inr vs \<Rightarrow> Some vs | Inl e \<Rightarrow> None)
      else None)"

text \<open>Whether the numeric conversion of a token fails with \<^verbatim>\<open>ValueError\<close>.\<close>

definition conversion_fails :: "builtins \<Rightarrow> string \<Rightarrow> bool" where
  "conversion_fails B t \<longleftrightarrow>
     (if CHR ''.'' \<notin> set t then py_int B t = Inl ValueError else py_float B t = Inl ValueError)"

section \<open>Float arithmetic of the interpreter\<close>

text \<open>
  Arithmetic on floats is IEEE binary64 with rounding to nearest, ties to even: the exact
  result is computed as a rational and rounded. \<open>round_half_even\<close> rounds to an integer.
\<close>

definition round_half_even :: "rat \<Rightarrow> int" where
  "round_half_even x =
     (let f = \<lfloor>x\<rfloor>; d = x - of_int f
      in if d < 1 / 2 then f else if 1 / 2 < d then f + 1 else if even f then f else f + 1)"

text \<open>
  How often \<open>x \<ge> 2\<close> can be halved before it is below 2, and how often \<open>x < 1\<close> must be
  doubled to reach 1, each at most \<open>n\<close> times.
\<close>

fun halvings :: "nat \<Rightarrow> rat \<Rightarrow> nat" where
  "halvings 0 x = 0"
| "halvings (Suc n) x = (if x < 2 then 0 else Suc (halvings n (x / 2)))"

fun doublings :: "nat \<Rightarrow> rat \<Rightarrow> nat" where
  "doublings 0 x = 0"
| "doublings (Suc n) x = (if 1 \<le> x then 0 else Suc (doublings n (x * 2)))"

text \<open>
  The binary exponent of the leading bit of \<open>x > 0\<close>, kept within the exponent range of
  binary64: below \<open>2 ^ -1022\<close> all numbers share the exponent of the subnormal numbers,
  and 1024 stands for everything too large.
\<close>

definition binade :: "rat \<Rightarrow> int" where
  "binade x = (if 1 \<le> x then int (halvings 1024 x) else - int (doublings 1022 x))"

text \<open>The nearest multiple of the spacing of the doubles around \<open>x > 0\<close> (53 bits).\<close>

definition round53 :: "rat \<Rightarrow> rat" where
  "round53 x = of_int (round_half_even (x / 2 powi (binade x - 52))) * 2 powi (binade x - 52)"

text \<open>Rounding an exact result to a float; a result of \<open>2 ^ 1024\<close> or more is an infinity.\<close>

definition round_to_double :: "rat \<Rightarrow> pyfloat" where
  "round_to_double x =
     (if x = 0 then Fin 0
      else if 0 < x then (if 2 ^ 1024 \<le> round53 x then PosInf else Fin (round53 x))
      else (if 2 ^ 1024 \<le> round53 (- x) then NegInf else Fin (- round53 (- x))))"

text \<open>\<^verbatim>\<open>float(i)\<close> for an integer: \<^verbatim>\<open>OverflowError\<close> when it is too large.\<close>

definition float_of_int :: "int \<Rightarrow> py_exn + pyfloat" where
  "float_of_int i =
     (case round_to_double (of_int i) of Fin r \<Rightarrow> Inr (Fin r) | _ \<Rightarrow> Inl OverflowError)"

text \<open>
  \<^verbatim>\<open>x / y\<close> on floats: division by zero raises; an overflow gives an infinity without
  raising.
\<close>

fun float_div :: "pyfloat \<Rightarrow> pyfloat \<Rightarrow> py_exn + pyfloat" where
  "float_div x (Fin d) =
     (if d = 0 then Inl ZeroDivisionError
      else (case x of
              Fin r \<Rightarrow> Inr (round_to_double (r / d))
            | PosInf \<Rightarrow> Inr (if 0 < d then PosInf else NegInf)
            | NegInf \<Rightarrow> Inr (if 0 < d then NegInf else PosInf)
            | NaN \<Rightarrow> Inr NaN))"
| "float_div (Fin r) PosInf = Inr (Fin 0)"
| "float_div (Fin r) NegInf = Inr (Fin 0)"
| "float_div x y = Inr NaN"

text \<open>\<^verbatim>\<open>x * y\<close> on floats.\<close>

fun float_mul :: "pyfloat \<Rightarrow> pyfloat \<Rightarrow> pyfloat" where
  "float_mul (Fin a) (Fin b) = round_to_double (a * b)"
| "float_mul NaN y = NaN"
| "float_mul x NaN = NaN"
| "float_mul (Fin a) PosInf = (if a = 0 then NaN else if 0 < a then PosInf else NegInf)"
| "float_mul (Fin a) NegInf = (if a = 0 then NaN else if 0 < a then NegInf else PosInf)"
| "float_mul PosInf (Fin b) = (if b = 0 then NaN else if 0 < b then PosInf else NegInf)"
| "float_mul NegInf (Fin b) = (if b = 0 then NaN else if 0 < b then NegInf else PosInf)"
| "float_mul PosInf PosInf = PosInf"
| "float_mul PosInf NegInf = NegInf"
| "float_mul NegInf PosInf = NegInf"
| "float_mul NegInf NegInf = PosInf"

text \<open>
  \<^verbatim>\<open>i / y\<close> for an integer \<open>i\<close> (true division). Two integers give the correctly
  rounded quotient, or \<^verbatim>\<open>OverflowError\<close>; with a float the integer is converted first;
  a boolean counts as 0 or 1; a string cannot divide.
\<close>

definition int_div_int :: "int \<Rightarrow> int \<Rightarrow> py_exn + pyfloat" where
  "int_div_int i n =
     (if n = 0 then Inl ZeroDivisionError
      else (case round_to_double (of_int i / of_int n) of
              Fin r \<Rightarrow> Inr (Fin r) | _ \<Rightarrow> Inl OverflowError))"

fun int_truediv :: "int \<Rightarrow> pyval \<Rightarrow> py_exn + pyfloat" where
  "int_truediv i (PInt n) = int_div_int i n"
| "int_truediv i (PBool b) = int_div_int i (if b then 1 else 0)"
| "int_truediv i (PFloat y) =
     (case float_of_int i of Inl e \<Rightarrow> Inl e | Inr x \<Rightarrow> float_div x y)"
| "int_truediv i (PStr s) = Inl TypeError"

text \<open>\<^verbatim>\<open>x * i\<close> for a float and an integer.\<close>

definition float_mul_int :: "pyfloat \<Rightarrow> int \<Rightarrow> py_exn + pyfloat" where
  "float_mul_int x i = (case float_of_int i of Inl e \<Rightarrow> Inl e | Inr y \<Rightarrow> Inr (float_mul x y))"

text \<open>\<^verbatim>\<open>int(x)\<close> for a float: truncation toward zero; infinities and NaN raise.\<close>

fun int_of_float :: "pyfloat \<Rightarrow> py_exn + int" where
  "int_of_float (Fin r) = Inr (if 0 \<le> r then \<lfloor>r\<rfloor> else - \<lfloor>- r\<rfloor>)"
| "int_of_float PosInf = Inl OverflowError"
| "int_of_float NegInf = Inl OverflowError"
| "int_of_float NaN = Inl ValueError"

text \<open>\<^verbatim>\<open>int(v)\<close> for a parameter value.\<close>

fun int_of_value :: "builtins \<Rightarrow> pyval \<Rightarrow> py_exn + int" where
  "int_of_value B (PInt i) = Inr i"
| "int_of_value B (PBool b) = Inr (if b then 1 else 0)"
| "int_of_value B (PFloat x) = int_of_float x"
| "int_of_value B (PStr s) = py_int B s"

text \<open>\<^verbatim>\<open>v > 0\<close> for a parameter value; a string cannot be compared with a number.\<close>

fun value_positive :: "pyval \<Rightarrow> py_exn + bool" where
  "value_positive (PInt i) = Inr (0 < i)"
| "value_positive (PBool b) = Inr b"
| "value_positive (PFloat (Fin r)) = Inr (0 < r)"
| "value_positive (PFloat PosInf) = Inr True"
| "value_positive (PFloat x) = Inr False"
| "value_positive (PStr s) = Inl TypeError"

section \<open>The execution of one run (simulation\_worker.py)\<close>

text \<open>
  What the monitoring loop sees at the start of one iteration: the child has exited, or
  it is still alive and, after the pause, \<^verbatim>\<open>_get_latest_step\<close> returns the given step
  (0 when the store cannot be read).
\<close>

datatype poll_obs = Exited | Alive int

text \<open>
  The outcome of every call that leaves the program during one run: an exception or a
  result. \<open>child_polls\<close> is the sequence of observations of the monitoring loop.
\<close>

record env =
  create_script :: "py_exn + string"
  mkdir_exp_dir :: "py_exn option"
  mkdir_logs_dir :: "py_exn option"
  open_stdout_log :: "py_exn option"
  open_stderr_log :: "py_exn option"
  popen :: "py_exn + int"
  child_polls :: "nat \<Rightarrow> poll_obs"
  process_wait :: "py_exn + int"
  process_kill :: "py_exn option"
  close_stdout_log :: "py_exn option"
  close_stderr_log :: "py_exn option"
  read_stdout_log :: "py_exn + string"
  read_stderr_log :: "py_exn + string"
  latest_step_at_end :: int
  resolve_paths :: "py_exn option"
  exception_text :: "py_exn \<Rightarrow> string"
  unlink_temp_script :: "py_exn option"

definition emit :: "worker \<Rightarrow> signal \<Rightarrow> worker" where
  "emit w s = w\<lparr>emitted := emitted w @ [s]\<rparr>"

text \<open>
  \<^verbatim>\<open>_get_tail\<close>: the last lines of a text. The slice \<^verbatim>\<open>lines[-num_lines:]\<close> is
  the whole list when \<^verbatim>\<open>num_lines\<close> is 0.
\<close>

definition get_tail :: "string \<Rightarrow> nat \<Rightarrow> string" where
  "get_tail text num_lines =
     (if text = [] then ''(empty)''
      else (let lines = split_on (CHR 0x0A) (strip text)
            in join [CHR 0x0A]
                 (if num_lines = 0 then lines else drop (length lines - num_lines) lines)))"

text \<open>
  The body of the \<^verbatim>\<open>try\<close> block inside the loop of \<^verbatim>\<open>_monitor_progress\<close>, once the
  step has advanced: the percentage, capped at 95, and the message. Any exception is
  passed to the \<^verbatim>\<open>except\<close> clause of the loop.
\<close>

definition progress_signal :: "builtins \<Rightarrow> pyval \<Rightarrow> int \<Rightarrow> py_exn + signal" where
  "progress_signal B sim current_step =
     (case int_truediv current_step sim of
        Inl e \<Rightarrow> Inl e
      | Inr q \<Rightarrow>
          (case float_mul_int q 100 of
             Inl e \<Rightarrow> Inl e
           | Inr p \<Rightarrow>
               (case int_of_float p of
                  Inl e \<Rightarrow> Inl e
                | Inr progress_pct \<Rightarrow>
                    (case int_of_value B sim of
                       Inl e \<Rightarrow> Inl e
                     | Inr n \<Rightarrow>
                         Inr (Progress (min 95 progress_pct)
                                (''Step '' @ str_int current_step @ ''/'' @ str_int n
                                   @ '' MCS''))))))"

text \<open>
  The loop of \<^verbatim>\<open>_monitor_progress\<close>, from its \<open>i\<close>-th iteration on. It ends when the
  child is seen to have exited; a child that never exits keeps it running, and then the
  function has no result. An exception in the body is swallowed and leaves
  \<^verbatim>\<open>last_reported_step\<close> as it was.
\<close>

partial_function (option) monitor_loop ::
  "builtins \<Rightarrow> (nat \<Rightarrow> poll_obs) \<Rightarrow> nat \<Rightarrow> int \<Rightarrow> worker \<Rightarrow> worker option" where
  "monitor_loop B polls i last_reported_step w =
     (case polls i of
        Exited \<Rightarrow> Some w
      | Alive current_step \<Rightarrow>
          (if last_reported_step < current_step then
             (case progress_signal B (sim_time w) current_step of
                Inr s \<Rightarrow> monitor_loop B polls (Suc i) current_step (emit w s)
              | Inl e \<Rightarrow> monitor_loop B polls (Suc i) last_reported_step w)
           else monitor_loop B polls (Suc i) last_reported_step w))"

declare monitor_loop.simps [code]

text \<open>\<^verbatim>\<open>_monitor_progress\<close>.\<close>

definition monitor_progress :: "builtins \<Rightarrow> env \<Rightarrow> worker \<Rightarrow> worker option" where
  "monitor_progress B env w =
     map_option (\<lambda>w'. w'\<lparr>monitoring := False\<rparr>)
       (monitor_loop B (child_polls env) 0 0 (w\<lparr>monitoring := True\<rparr>))"

text \<open>
  \<^verbatim>\<open>_save_run_metadata\<close>, as far as it can raise: the record is built first
  (\<^verbatim>\<open>int(self.sim_time)\<close>, the comparison \<^verbatim>\<open>self.sim_time > 0\<close>, the completion
  percentage, the resolved paths); a failure to write the file is caught inside.
\<close>

definition save_run_metadata :: "builtins \<Rightarrow> env \<Rightarrow> worker \<Rightarrow> int \<Rightarrow> int \<Rightarrow> py_exn option" where
  "save_run_metadata B env w exit_code final_step =
     (case int_of_value B (sim_time w) of
        Inl e \<Rightarrow> Some e
      | Inr expected_steps \<Rightarrow>
          (case value_positive (sim_time w) of
             Inl e \<Rightarrow> Some e
           | Inr positive \<Rightarrow>
               (case (if positive
                      then (case int_truediv final_step (sim_time w) of
                              Inl e \<Rightarrow> Inl e | Inr q \<Rightarrow> float_mul_int q 100)
                      else Inr (Fin 0)) of
                  Inl e \<Rightarrow> Some e
                | Inr completion_percentage \<Rightarrow> resolve_paths env)))"

text \<open>
  \<^verbatim>\<open>run\<close>, first part: from the first signal to the spawning of the child. The two
  log files are opened before \<^verbatim>\<open>Popen\<close>, outside the inner \<^verbatim>\<open>try\<close>.
\<close>

definition run_launch :: "env \<Rightarrow> worker \<Rightarrow> py_exn option \<times> worker" where
  "run_launch env w =
     (let w1 = emit w (Progress 0 (''Initializing simulation: '' @ exp_name w)) in
      case create_script env of
        Inl e \<Rightarrow> (Some e, w1)
      | Inr path \<Rightarrow>
          (let w2 = emit (w1\<lparr>temp_script := Some path\<rparr>)
                      (Progress 5 ''Launching simulation process...'') in
           case mkdir_exp_dir env of
             Some e \<Rightarrow> (Some e, w2)
           | None \<Rightarrow>
               (case mkdir_logs_dir env of
                  Some e \<Rightarrow> (Some e, w2)
                | None \<Rightarrow>
                    (case open_stdout_log env of
                       Some e \<Rightarrow> (Some e, w2)
                     | None \<Rightarrow>
                         (let w3 = w2\<lparr>stdout_log := Opened\<rparr> in
                          case open_stderr_log env of
                            Some e \<Rightarrow> (Some e, w3)
                          | None \<Rightarrow>
                              (let w4 = w3\<lparr>stderr_log := Opened\<rparr> in
                               case popen env of
                                 Inl e \<Rightarrow> (Some e, w4)
                               | Inr pid \<Rightarrow>
                                   (None,
                                    emit (w4\<lparr>process := Some pid\<rparr>)
                                      (Progress 10
                                         (''Simulation running (PID: '' @ str_int pid
                                            @ ''), monitoring progress...'')))))))))"

text \<open>
  The \<^verbatim>\<open>finally\<close> clause of the inner \<^verbatim>\<open>try\<close>: both files are closed, then read.
  A \<^verbatim>\<open>close\<close> that raises has still closed its file.
\<close>

definition close_and_read_logs :: "env \<Rightarrow> worker \<Rightarrow> (py_exn + string \<times> string) \<times> worker" where
  "close_and_read_logs env w =
     (let w1 = w\<lparr>stdout_log := Closed\<rparr> in
      case close_stdout_log env of
        Some e \<Rightarrow> (Inl e, w1)
      | None \<Rightarrow>
          (let w2 = w1\<lparr>stderr_log := Closed\<rparr> in
           case close_stderr_log env of
             Some e \<Rightarrow> (Inl e, w2)
           | None \<Rightarrow>
               (case read_stdout_log env of
                  Inl e \<Rightarrow> (Inl e, w2)
                | Inr out \<Rightarrow>
                    (case read_stderr_log env of
                       Inl e \<Rightarrow> (Inl e, w2)
                     | Inr err \<Rightarrow> (Inr (out, err), w2)))))"

text \<open>
  The inner \<^verbatim>\<open>try\<close>: waiting for the child, killing it on a timeout and raising
  again, and the \<^verbatim>\<open>finally\<close> clause, whose exception replaces a pending one.
\<close>

definition wait_for_process ::
  "env \<Rightarrow> worker \<Rightarrow> (py_exn + int \<times> string \<times> string) \<times> worker" where
  "wait_for_process env w =
     (let pending =
            (case process_wait env of
               Inr exit_code \<Rightarrow> Inr exit_code
             | Inl TimeoutExpired \<Rightarrow>
                 (case process_kill env of Some e \<Rightarrow> Inl e | None \<Rightarrow> Inl TimeoutExpired)
             | Inl e \<Rightarrow> Inl e);
          logs = close_and_read_logs env w
      in case fst logs of
           Inl e \<Rightarrow> (Inl e, snd logs)
         | Inr (out, err) \<Rightarrow>
             (case pending of
                Inl e \<Rightarrow> (Inl e, snd logs)
              | Inr exit_code \<Rightarrow> (Inr (exit_code, out, err), snd logs)))"

text \<open>
  The rest of the outer \<^verbatim>\<open>try\<close>: final step, classification of the exit code,
  metadata, and the terminal signal. 100 percent is emitted just before \<^verbatim>\<open>finished\<close>.
\<close>

definition report_outcome ::
  "builtins \<Rightarrow> env \<Rightarrow> worker \<Rightarrow> int \<Rightarrow> string \<Rightarrow> string \<Rightarrow> py_exn option \<times> worker" where
  "report_outcome B env w exit_code out err =
     (let final_step = latest_step_at_end env;
          exit_code_msg = interpret_exit_code exit_code;
          stdout_log_path = path_join B (logs_dir w) ''stdout.log'';
          stderr_log_path = path_join B (logs_dir w) ''stderr.log''
      in case save_run_metadata B env w exit_code final_step of
           Some e \<Rightarrow> (Some e, w)
         | None \<Rightarrow>
             (if exit_code = 0 then
                (None,
                 emit (emit w (Progress 100 ''Simulation completed successfully!''))
                   (Finished \<lparr>res_exp_name = exp_name w, res_exp_dir = exp_dir w,
                              res_zarr_path = zarr_path w, res_final_step = final_step,
                              res_parameters = parameters w, res_stdout = out,
                              res_stderr = err, res_success = True\<rparr>))
              else
                (case int_of_value B (sim_time w) of
                   Inl e \<Rightarrow> (Some e, w)
                 | Inr n \<Rightarrow>
                     (None,
                      emit w
                        (Error
                           (''Simulation failed with exit code '' @ str_int exit_code
                              @ [CHR 0x0A] @ exit_code_msg @ [CHR 0x0A, CHR 0x0A]
                              @ ''Reached step: '' @ str_int final_step @ ''/'' @ str_int n
                              @ [CHR 0x0A, CHR 0x0A]
                              @ ''Experiment directory:'' @ [CHR 0x0A] @ ''  '' @ exp_dir w @ ''/''
                              @ [CHR 0x0A, CHR 0x0A]
                              @ ''Log files:'' @ [CHR 0x0A]
                              @ ''  stdout: '' @ stdout_log_path @ [CHR 0x0A]
                              @ ''  stderr: '' @ stderr_log_path @ [CHR 0x0A, CHR 0x0A]
                              @ ''Last 20 lines of stdout:'' @ [CHR 0x0A] @ get_tail out 20
                              @ [CHR 0x0A, CHR 0x0A]
                              @ ''Last 20 lines of stderr:'' @ [CHR 0x0A] @ get_tail err 20))))))"

text \<open>
  The \<^verbatim>\<open>except\<close> clauses and the \<^verbatim>\<open>finally\<close> clause of the outer \<^verbatim>\<open>try\<close>, for the
  exception (if any) with which its body ended. The result is the exception that leaves
  \<^verbatim>\<open>run\<close>, if any.
\<close>

definition run_handlers :: "env \<Rightarrow> py_exn option \<times> worker \<Rightarrow> py_exn option \<times> worker" where
  "run_handlers env body =
     (let handled =
            (case fst body of
               None \<Rightarrow> (None, snd body)
             | Some TimeoutExpired \<Rightarrow>
                 (let w1 = emit (snd body) (Error ''Simulation timed out after 24 hours'')
                  in (if process w1 \<noteq> None then process_kill env else None, w1))
             | Some e \<Rightarrow> (None, emit (snd body) (Error (exception_text env e))))
      in case temp_script (snd handled) of
           None \<Rightarrow> handled
         | Some path \<Rightarrow>
             (case unlink_temp_script env of
                Some e \<Rightarrow> (Some e, snd handled)
              | None \<Rightarrow> handled))"

text \<open>\<^verbatim>\<open>run\<close>. It has no result when the monitoring loop does not end.\<close>

definition run :: "builtins \<Rightarrow> env \<Rightarrow> worker \<Rightarrow> (py_exn option \<times> worker) option" where
  "run B env w =
     (let launched = run_launch env w in
      case fst launched of
        Some e \<Rightarrow> Some (run_handlers env launched)
      | None \<Rightarrow>
          (case monitor_progress B env (snd launched) of
             None \<Rightarrow> None
           | Some w2 \<Rightarrow>
               (let waited = wait_for_process env w2 in
                case fst waited of
                  Inl e \<Rightarrow> Some (run_handlers env (Some e, snd waited))
                | Inr (exit_code, out, err) \<Rightarrow>
                    Some (run_handlers env
                            (report_outcome B env (snd waited) exit_code out err)))))"

text \<open>Reading the emitted signals.\<close>

fun is_terminal_signal :: "signal \<Rightarrow> bool" where
  "is_terminal_signal (Progress p m) = False"
| "is_terminal_signal s = True"

fun percentage :: "signal \<Rightarrow> int option" where
  "percentage (Progress p m) = Some p"
| "percentage s = None"

definition emitted_by_run :: "builtins \<Rightarrow> env \<Rightarrow> worker \<Rightarrow> signal list option" where
  "emitted_by_run B env w = map_option (\<lambda>r. emitted (snd r)) (run B env w)"

definition log_handles_after_run ::
  "builtins \<Rightarrow> env \<Rightarrow> worker \<Rightarrow> (file_handle \<times> file_handle) option" where
  "log_handles_after_run B env w =
     map_option (\<lambda>r. (stdout_log (snd r), stderr_log (snd r))) (run B env w)"

text \<open>
  A worker for a run of 1000 steps, and surroundings in which every call succeeds: the
  child is seen alive once, at step 290, then has exited with code 0.
\<close>

definition example_worker :: worker where
  "example_worker =
     \<lparr>parameters = [(''exp_name'', PStr ''x''), (''sim_time'', PInt 1000)],
      worker_output_dir = ''experiments'',
      exp_name = ''x'',
      sim_time = PInt 1000,
      write_frequency = PInt 10,
      exp_dir = ''experiments/x'',
      zarr_path = ''experiments/x/data.zarr'',
      logs_dir = ''experiments/x/logs'',
      metadata_path = ''experiments/x/run_metadata.json'',
      process = None, temp_script = None, monitoring = False,
      stdout_log = Unopened, stderr_log = Unopened, emitted = []\<rparr>"

definition example_env :: env where
  "example_env =
     \<lparr>create_script = Inr ''/tmp/angio_sim_x_0.py'',
      mkdir_exp_dir = None, mkdir_logs_dir = None,
      open_stdout_log = None, open_stderr_log = None,
      popen = Inr 4242,
      child_polls = (\<lambda>i. if i = 0 then Alive 290 else Exited),
      process_wait = Inr 0,
      process_kill = None,
      close_stdout_log = None, close_stderr_log = None,
      read_stdout_log = Inr [], read_stderr_log = Inr [],
      latest_step_at_end = 1000,
      resolve_paths = None,
      exception_text = (\<lambda>e. ''exception''),
      unlink_temp_script = None\<rparr>"

text \<open>The order of the floats that are not negative and not NaN, for the statements.\<close>

fun nonneg_le :: "pyfloat \<Rightarrow> pyfloat \<Rightarrow> bool" where
  "nonneg_le (Fin a) (Fin b) = (0 \<le> a \<and> a \<le> b)"
| "nonneg_le (Fin a) PosInf = (0 \<le> a)"
| "nonneg_le PosInf PosInf = True"
| "nonneg_le x y = False"

text \<open>The same surroundings with the child seen alive at step 10.\<close>

definition early_env :: env where
  "early_env = example_env\<lparr>child_polls := (\<lambda>i. if i = 0 then Alive 10 else Exited)\<rparr>"

text \<open>
  The same surroundings with a child that never exits: it is seen alive at step 10 every
  time.
\<close>

definition hung_env :: env where
  "hung_env = example_env\<lparr>child_polls := (\<lambda>i. Alive 10)\<rparr>"

section \<open>Properties of the exit-code classification\<close>

lemma access_violation_msg_suggestion:
  "suffix ''Try: Reduce write frequency or use smaller lattice size'' access_violation_msg"
  unfolding access_violation_msg_def suffix_def by (metis append.assoc)

text \<open>
  Claim C3. For every integer exit code the classification is the decision table:
  0 is success; 1 is a Python exception in the child; -11 is a segmentation fault;
  3221225477 and -1073741819 give the access-violation message, which ends with the
  advice to reduce the write frequency or use a smaller lattice; every other negative
  code is reported as killed by signal \<open>-code\<close>; every other positive code is an unknown
  error reported with the raw code.
\<close>

theorem interpret_exit_code_table:
  "(exit_code = 0 \<longrightarrow> interpret_exit_code exit_code = ''Success'') \<and>
   (exit_code = 1 \<longrightarrow> interpret_exit_code exit_code = ''Python exception (check stderr)'') \<and>
   (exit_code = - 11 \<longrightarrow>
      interpret_exit_code exit_code = ''Segmentation fault (SIGSEGV) - CC3D crashed'') \<and>
   (exit_code = 3221225477 \<or> exit_code = - 1073741819 \<longrightarrow>
      interpret_exit_code exit_code = access_violation_msg \<and>
      suffix ''Try: Reduce write frequency or use smaller lattice size''
        (interpret_exit_code exit_code)) \<and>
   (exit_code < 0 \<and> exit_code \<noteq> - 11 \<and> exit_code \<noteq> - 1073741819 \<longrightarrow>
      interpret_exit_code exit_code = ''Process killed by signal '' @ str_int (- exit_code)) \<and>
   (1 < exit_code \<and> exit_code \<noteq> 3221225477 \<longrightarrow>
      interpret_exit_code exit_code = ''Unknown error (exit code '' @ str_int exit_code @ '')'')"
  using access_violation_msg_suggestion by (auto simp: interpret_exit_code_def)

theorem interpret_exit_code_table_witness:
  "interpret_exit_code 0 = ''Success'' \<and>
   interpret_exit_code 1 = ''Python exception (check stderr)'' \<and>
   interpret_exit_code (- 11) = ''Segmentation fault (SIGSEGV) - CC3D crashed'' \<and>
   suffix ''Try: Reduce write frequency or use smaller lattice size''
     (interpret_exit_code 3221225477) \<and>
   interpret_exit_code (- 1073741819) = access_violation_msg \<and>
   interpret_exit_code (- 9) = ''Process killed by signal 9'' \<and>
   interpret_exit_code 137 = ''Unknown error (exit code 137)''"
  using interpret_exit_code_table [of 0] interpret_exit_code_table [of 1]
    interpret_exit_code_table [of "- 11"] interpret_exit_code_table [of 3221225477]
    interpret_exit_code_table [of "- 1073741819"] interpret_exit_code_table [of "- 9"]
    interpret_exit_code_table [of 137]
  by (auto simp: str_int_def str_nat.simps digit_char_def)

section \<open>Run identifiers of a batch\<close>

lemma lt10_cases: "d < 10 \<Longrightarrow> d \<in> {0, 1, 2, 3, 4, 5, 6, 7, 8, 9::nat}"
  by auto

lemma digit_char_is_digit: "d < 10 \<Longrightarrow> is_digit (digit_char d)"
  using lt10_cases [of d] by (auto simp: is_digit_def digit_char_def)

lemma digit_val_digit_char: "d < 10 \<Longrightarrow> digit_val (digit_char d) = d"
  using lt10_cases [of d] by (auto simp: digit_val_def digit_char_def)

lemma str_nat_digits: "\<forall>c \<in> set (str_nat n). is_digit c"
proof (induction n rule: str_nat.induct)
  case (1 n)
  show ?case
  proof (cases "n < 10")
    case True
    then show ?thesis by (simp add: str_nat.simps [of n] digit_char_is_digit)
  next
    case False
    with 1 show ?thesis by (simp add: str_nat.simps [of n] digit_char_is_digit)
  qed
qed

lemma digits_value_snoc: "digits_value (s @ [c]) = 10 * digits_value s + digit_val c"
  by (simp add: digits_value_def)

lemma digits_value_str_nat: "digits_value (str_nat n) = n"
proof (induction n rule: str_nat.induct)
  case (1 n)
  show ?case
  proof (cases "n < 10")
    case True
    then show ?thesis
      by (simp add: str_nat.simps [of n] digits_value_def digit_val_digit_char)
  next
    case False
    with 1 show ?thesis
      by (simp add: str_nat.simps [of n] digits_value_snoc digit_val_digit_char)
  qed
qed

lemma digits_value_zeros: "digits_value (replicate k CHR ''0'' @ s) = digits_value s"
proof -
  have "foldl (\<lambda>a c. 10 * a + digit_val c) 0 (replicate k CHR ''0'') = 0"
    by (induction k) (simp_all add: digit_val_def)
  then show ?thesis by (simp add: digits_value_def)
qed

lemma format_0d_value: "0 \<le> i \<Longrightarrow> digits_value (format_0d w i) = nat i"
  by (simp add: format_0d_def digits_value_zeros digits_value_str_nat)

lemma format_0d_digits: "0 \<le> i \<Longrightarrow> \<forall>c \<in> set (format_0d w i). is_digit c"
proof -
  assume "0 \<le> i"
  moreover have "is_digit CHR ''0''" by (simp add: is_digit_def)
  ultimately show ?thesis
    using str_nat_digits [of "nat i"] by (auto simp: format_0d_def)
qed

lemma format_0d_inj: "0 \<le> i \<Longrightarrow> 0 \<le> j \<Longrightarrow> format_0d w i = format_0d w j \<Longrightarrow> i = j"
  by (metis format_0d_value nat_eq_iff2)

lemma digits_prefix_unique:
  "\<forall>c \<in> set xs. is_digit c \<Longrightarrow> \<forall>c \<in> set ys. is_digit c \<Longrightarrow> \<not> is_digit a \<Longrightarrow>
   xs @ a # r = ys @ a # r' \<Longrightarrow> xs = ys \<and> r = r'"
proof (induction xs arbitrary: ys)
  case Nil
  then show ?case by (cases ys) auto
next
  case (Cons x xs)
  then show ?case by (cases ys) auto
qed

lemma launch_threads_names:
  "map thread_exp_name (launch_threads B combos R) =
   map (\<lambda>(c, r). batch_exp_name B (length combos) R c r)
     (List.product [0..<length combos] [0..<nat R])"
proof -
  have gen: "concat (map (\<lambda>(ci, ps). map (f ci) rs) (enumerate n xs)) =
             map (\<lambda>(c, r). f c r) (List.product [n..<n + length xs] rs)"
    for f :: "nat \<Rightarrow> nat \<Rightarrow> string" and rs n and xs :: "params list"
  proof (induction xs arbitrary: n)
    case Nil
    then show ?case by simp
  next
    case (Cons x xs)
    have "[n..<Suc (n + length xs)] = n # [Suc n..<Suc (n + length xs)]"
      by (rule upt_conv_Cons) simp
    with Cons [of "Suc n"] show ?case by simp
  qed
  have "map thread_exp_name (launch_threads B combos R) =
        concat (map (\<lambda>(ci, ps). map (\<lambda>r. batch_exp_name B (length combos) R ci r) [0..<nat R])
                 (enumerate 0 combos))"
    by (simp add: launch_threads_def map_concat comp_def case_prod_unfold Let_def)
  then show ?thesis using gen [of "\<lambda>c r. batch_exp_name B (length combos) R c r" "[0..<nat R]" 0 combos]
    by simp
qed


lemma batch_exp_name_inj:
  assumes "c < N" "c' < N" "r < nat R" "r' < nat R"
    and eq: "batch_exp_name B N R c r = batch_exp_name B N R c' r'"
  shows "c = c' \<and> r = r'"
proof -
  have nd: "\<not> is_digit CHR ''_''" by (simp add: is_digit_def)
  have d3: "\<forall>x \<in> set (format_0d 3 (int k + 1)). is_digit x" for k
    by (rule format_0d_digits) simp
  have i3: "format_0d 3 (int k + 1) = format_0d 3 (int k' + 1) \<Longrightarrow> k = k'" for k k'
    using format_0d_inj [of "int k + 1" "int k' + 1" 3] by simp
  have i2: "format_0d 2 (int k + 1) = format_0d 2 (int k' + 1) \<Longrightarrow> k = k'" for k k'
    using format_0d_inj [of "int k + 1" "int k' + 1" 2] by simp
  consider (both) "N > 1" "R > 1" | (combos) "N > 1" "\<not> R > 1" | (reps) "\<not> N > 1" "R > 1"
    | (single) "\<not> N > 1" "\<not> R > 1" by blast
  then show ?thesis
  proof cases
    case both
    with eq have "format_0d 3 (int c + 1) @ CHR ''_'' # (''rep'' @ format_0d 2 (int r + 1)) =
                  format_0d 3 (int c' + 1) @ CHR ''_'' # (''rep'' @ format_0d 2 (int r' + 1))"
      by (simp add: batch_exp_name_def)
    from digits_prefix_unique [OF d3 d3 nd this] show ?thesis using i3 i2 by simp
  next
    case combos
    with assms have "r = r'" by linarith
    moreover from combos eq have "c = c'" using i3 by (simp add: batch_exp_name_def)
    ultimately show ?thesis by simp
  next
    case reps
    with assms have "c = c'" by linarith
    moreover from reps eq have "r = r'" using i2 by (simp add: batch_exp_name_def)
    ultimately show ?thesis by simp
  next
    case single
    with assms show ?thesis by linarith
  qed
qed

lemma launch_threads_distinct: "distinct (map thread_exp_name (launch_threads B combos R))"
proof -
  let ?ps = "List.product [0..<length combos] [0..<nat R]"
  have "inj_on (\<lambda>(c, r). batch_exp_name B (length combos) R c r) (set ?ps)"
  proof (rule inj_onI)
    fix x y
    assume x: "x \<in> set ?ps" and y: "y \<in> set ?ps"
      and eq: "(case x of (c, r) \<Rightarrow> batch_exp_name B (length combos) R c r) =
               (case y of (c, r) \<Rightarrow> batch_exp_name B (length combos) R c r)"
    obtain c r where xc: "x = (c, r)" by (cases x)
    obtain c' r' where yc: "y = (c', r')" by (cases y)
    from x y xc yc have "c < length combos" "c' < length combos" "r < nat R" "r' < nat R"
      by simp_all
    moreover from eq xc yc
    have "batch_exp_name B (length combos) R c r = batch_exp_name B (length combos) R c' r'"
      by simp
    ultimately have "c = c' \<and> r = r'" by (rule batch_exp_name_inj)
    with xc yc show "x = y" by simp
  qed
  moreover have "distinct ?ps" by (simp add: distinct_product)
  ultimately show ?thesis
    unfolding launch_threads_names by (simp only: distinct_map simp_thms)
qed

lemma launch_threads_length: "length (launch_threads B combos R) = length combos * nat R"
  using arg_cong [OF launch_threads_names [of B combos R], of length] by simp

lemma launch_threads_nth:
  assumes "c < length combos" "r < nat R"
  shows "map thread_exp_name (launch_threads B combos R) ! (c * nat R + r) =
         batch_exp_name B (length combos) R c r"
proof -
  have "c * nat R + r < Suc c * nat R" using assms by simp
  also have "\<dots> \<le> length combos * nat R" using assms by (intro mult_le_mono1) simp
  finally have lt: "c * nat R + r < length combos * nat R" .
  have dv: "(c * nat R + r) div nat R = c" and md: "(c * nat R + r) mod nat R = r"
    using assms by simp_all
  have len: "length (List.product [0..<length combos] [0..<nat R]) = length combos * nat R"
    by simp
  have "List.product [0..<length combos] [0..<nat R] ! (c * nat R + r) = (c, r)"
    using lt assms by (subst product_nth) (simp_all only: length_upt diff_zero dv md nth_upt add_0)
  then show ?thesis
    unfolding launch_threads_names using lt len by (simp only: nth_map case_prod_conv)
qed

text \<open>
  Claim C4. A batch of \<open>N\<close> combinations and \<open>R\<close> replicates launches \<open>N * R\<close> runs.
  The run of the 1-based combination index \<open>c\<close> and replicate index \<open>r\<close> is named \<open>B\<close>
  when \<open>N = 1\<close> and \<open>R = 1\<close>, \<open>B_combo{c:03d}\<close> when \<open>N > 1\<close> and \<open>R = 1\<close>,
  \<open>B_rep{r:02d}\<close> when \<open>N = 1\<close> and \<open>R > 1\<close>, and \<open>B_combo{c:03d}_rep{r:02d}\<close> when both
  exceed 1; the names of one batch are pairwise distinct.
\<close>

theorem batch_run_identifiers:
  "length (launch_threads B combos R) = length combos * nat R \<and>
   distinct (map thread_exp_name (launch_threads B combos R)) \<and>
   (\<forall>c r. 1 \<le> c \<and> c \<le> length combos \<and> 1 \<le> r \<and> int r \<le> R \<longrightarrow>
      thread_exp_name (launch_threads B combos R ! ((c - 1) * nat R + (r - 1))) =
        (if length combos = 1 \<and> R = 1 then B
         else if R = 1 then B @ ''_combo'' @ format_0d 3 (int c)
         else if length combos = 1 then B @ ''_rep'' @ format_0d 2 (int r)
         else B @ ''_combo'' @ format_0d 3 (int c) @ ''_rep'' @ format_0d 2 (int r)))"
proof (intro conjI allI impI)
  show "length (launch_threads B combos R) = length combos * nat R"
    by (rule launch_threads_length)
  show "distinct (map thread_exp_name (launch_threads B combos R))"
    by (rule launch_threads_distinct)
next
  fix c r
  assume h: "1 \<le> c \<and> c \<le> length combos \<and> 1 \<le> r \<and> int r \<le> R"
  then have c: "c - 1 < length combos" and r: "r - 1 < nat R" by linarith+
  have lt: "(c - 1) * nat R + (r - 1) < length (launch_threads B combos R)"
  proof -
    have "(c - 1) * nat R + (r - 1) < Suc (c - 1) * nat R" using r by simp
    also have "\<dots> \<le> length combos * nat R" using c by (intro mult_le_mono1) simp
    finally show ?thesis by (simp add: launch_threads_length)
  qed
  have "thread_exp_name (launch_threads B combos R ! ((c - 1) * nat R + (r - 1))) =
        batch_exp_name B (length combos) R (c - 1) (r - 1)"
    using launch_threads_nth [OF c r, of B] lt by simp
  moreover have "int (c - 1) + 1 = int c" "int (r - 1) + 1 = int r" using h by linarith+
  ultimately show "thread_exp_name (launch_threads B combos R ! ((c - 1) * nat R + (r - 1))) =
        (if length combos = 1 \<and> R = 1 then B
         else if R = 1 then B @ ''_combo'' @ format_0d 3 (int c)
         else if length combos = 1 then B @ ''_rep'' @ format_0d 2 (int r)
         else B @ ''_combo'' @ format_0d 3 (int c) @ ''_rep'' @ format_0d 2 (int r))"
    using h by (auto simp: batch_exp_name_def)
qed

theorem batch_run_identifiers_witness:
  "(1::nat) \<le> 3 \<and> 3 \<le> length [[], [], []::params] \<and> (1::nat) \<le> 2 \<and> int 2 \<le> 2 \<and>
   thread_exp_name (launch_threads ''run'' [[], [], []] 2 ! 5) = ''run_combo003_rep02'' \<and>
   length (launch_threads ''run'' [[], [], []] 2) = 6 \<and>
   distinct (map thread_exp_name (launch_threads ''run'' [[], [], []] 2))"
proof -
  have rep: "replicate 2 CHR ''0'' = ''00''" by (simp add: numeral_2_eq_2)
  have "thread_exp_name (launch_threads ''run'' [[], [], []] 2 ! ((3 - 1) * nat 2 + (2 - 1))) =
        ''run_combo003_rep02''"
    using rep batch_run_identifiers [of "''run''" "[[], [], []]" 2, THEN conjunct2, THEN conjunct2,
        THEN spec, THEN spec, of 3 2]
    by (simp add: format_0d_def str_nat.simps digit_char_def)
  then show ?thesis
    using batch_run_identifiers [of "''run''" "[[], [], []]" 2] by simp
qed

section \<open>Completion count, cancellation and finalization of a batch\<close>

lemma finalize_batch_fields [simp]:
  "completed_combinations (finalize_batch w c) = completed_combinations w"
  "total_combinations (finalize_batch w c) = total_combinations w"
  "is_cancelled (finalize_batch w c) = is_cancelled w"
  "progress_bar_value (finalize_batch w c) = progress_bar_value w"
  "simulation_threads (finalize_batch w c) = simulation_threads w"
  "batch_output_folder (finalize_batch w c) = batch_output_folder w"
  by (simp_all add: finalize_batch_def)

lemma finalize_batch_finalizations [simp]:
  "finalizations (finalize_batch w c) =
   finalizations w @ [if c then BatchCancelledInfo (completed_combinations w) (total_combinations w)
                      else BatchCompleteInfo (completed_combinations w) (batch_output_folder w)]"
  by (simp add: finalize_batch_def finalizations_def)

lemma terminal_event_cancelled:
  "is_cancelled w \<Longrightarrow> is_terminal_event e \<Longrightarrow> handle_event w e = w"
  by (cases e) (simp_all add: on_batch_simulation_finished_def on_batch_simulation_error_def)

lemma terminal_event_fields:
  assumes "\<not> is_cancelled w" "is_terminal_event e"
  shows "completed_combinations (handle_event w e) = completed_combinations w + 1"
    and "total_combinations (handle_event w e) = total_combinations w"
    and "\<not> is_cancelled (handle_event w e)"
    and "progress_bar_value (handle_event w e) = completed_combinations w + 1"
    and "batch_output_folder (handle_event w e) = batch_output_folder w"
    and "finalizations (handle_event w e) =
         finalizations w @
           (if total_combinations w \<le> completed_combinations w + 1
            then [BatchCompleteInfo (completed_combinations w + 1) (batch_output_folder w)]
            else [])"
  using assms
  by (cases e; simp add: on_batch_simulation_finished_def on_batch_simulation_error_def Let_def
      finalizations_def finalize_batch_def)+

lemma cancel_batch_fields:
  "is_cancelled (cancel_batch w running answer)"
  "completed_combinations (cancel_batch w running answer) = completed_combinations w"
  "total_combinations (cancel_batch w running answer) = total_combinations w"
  "progress_bar_value (cancel_batch w running answer) = progress_bar_value w"
  "finalizations (cancel_batch w running answer) =
   finalizations w @
     (if answer = Yes then [BatchCancelledInfo (completed_combinations w) (total_combinations w)]
      else [])"
  by (simp_all add: cancel_batch_def Let_def finalizations_def finalize_batch_def)

lemma handle_events_snoc: "handle_events w (evs @ [e]) = handle_event (handle_events w evs) e"
  by (simp add: handle_events_def)

lemma terminal_events_run:
  assumes "\<not> is_cancelled w" "\<forall>e \<in> set evs. is_terminal_event e"
  shows "\<not> is_cancelled (handle_events w evs) \<and>
         completed_combinations (handle_events w evs) = completed_combinations w + int (length evs) \<and>
         total_combinations (handle_events w evs) = total_combinations w \<and>
         batch_output_folder (handle_events w evs) = batch_output_folder w \<and>
         (completed_combinations w + int (length evs) < total_combinations w \<longrightarrow>
            finalizations (handle_events w evs) = finalizations w) \<and>
         (completed_combinations w + int (length evs) = total_combinations w \<and> evs \<noteq> [] \<longrightarrow>
            finalizations (handle_events w evs) =
              finalizations w @ [BatchCompleteInfo (total_combinations w) (batch_output_folder w)])"
  using assms(2)
proof (induction evs rule: rev_induct)
  case Nil
  with assms(1) show ?case by (simp add: handle_events_def)
next
  case (snoc e evs)
  let ?w = "handle_events w evs"
  from snoc have ih: "\<not> is_cancelled ?w"
      "completed_combinations ?w = completed_combinations w + int (length evs)"
      "total_combinations ?w = total_combinations w"
      "batch_output_folder ?w = batch_output_folder w"
      "completed_combinations w + int (length evs) < total_combinations w \<longrightarrow>
         finalizations ?w = finalizations w"
    and te: "is_terminal_event e" by simp_all
  show ?case
    using terminal_event_fields [OF ih(1) te] ih(2-5)
    by (simp add: handle_events_snoc)
qed

lemma cancelled_events_run:
  assumes "is_cancelled w"
  shows "is_cancelled (handle_events w evs) \<and>
         completed_combinations (handle_events w evs) = completed_combinations w \<and>
         total_combinations (handle_events w evs) = total_combinations w \<and>
         progress_bar_value (handle_events w evs) = progress_bar_value w \<and>
         finalizations (handle_events w evs) =
           finalizations w @
             map (\<lambda>e. BatchCancelledInfo (completed_combinations w) (total_combinations w))
               (filter is_confirmed_cancel evs)"
proof (induction evs rule: rev_induct)
  case Nil
  with assms show ?case by (simp add: handle_events_def)
next
  case (snoc e evs)
  show ?case
  proof (cases "is_terminal_event e")
    case True
    with snoc terminal_event_cancelled [of "handle_events w evs" e] show ?thesis
      by (cases e) (auto simp: handle_events_snoc)
  next
    case False
    then obtain running answer where e: "e = CancelClicked running answer" by (cases e) auto
    show ?thesis using snoc cancel_batch_fields [of "handle_events w evs" running answer]
      by (cases answer) (simp_all add: handle_events_snoc e)
  qed
qed

lemma cancelled_terminal_events_run:
  "is_cancelled w \<Longrightarrow> \<forall>e \<in> set evs. is_terminal_event e \<Longrightarrow> handle_events w evs = w"
  by (induction evs rule: rev_induct)
     (simp_all add: handle_events_def terminal_event_cancelled)

lemma example_batch_state:
  "\<not> is_cancelled example_batch" "completed_combinations example_batch = 0"
  "total_combinations example_batch = 2" "dialogs example_batch = [RunQuestion 2]"
  "map (thread_exp_name \<circ> fst) (simulation_threads example_batch) =
     [''x_combo001'', ''x_combo002'']"
  "map (quit_requested \<circ> fst) (simulation_threads example_batch) = [False, False]"
  "progress_bar_value example_batch = 0"
  by code_simp+

lemma example_batch_finalizations: "finalizations example_batch = []"
  by (simp add: finalizations_def example_batch_state)

text \<open>
  A base name that is not a string: the names with a suffix are made of its text; the one
  run of a request without a sweep and with one replicate gets the value itself, and the
  construction of its worker raises \<^verbatim>\<open>TypeError\<close> before any thread is started.
\<close>

lemma base_name_not_text:
  "fst (run_simulation literal_builtins
          (example_window\<lparr>current_params := [(''jem'', PInt 3), (''exp_name'', PInt 7)]\<rparr>)
          1 ''20250101_120000'' Yes) = Some TypeError"
  "simulation_threads
     (snd (run_simulation literal_builtins
             (example_window\<lparr>current_params := [(''jem'', PInt 3), (''exp_name'', PInt 7)]\<rparr>)
             1 ''20250101_120000'' Yes)) = []"
  "map (thread_exp_name \<circ> fst)
     (simulation_threads
        (snd (run_simulation literal_builtins
                (example_window\<lparr>current_params := [(''jem'', PInt 3), (''exp_name'', PInt 7)]\<rparr>)
                2 ''20250101_120000'' Yes))) = [''7_rep01'', ''7_rep02'']"
  by code_simp+

text \<open>
  Claim C1 fails as stated: a terminal event that arrives after a confirmed cancel
  request is received by its handler and does not change the count. In the example batch
  of two runs the count stays at 0 and never reaches 2.
\<close>

theorem completed_count_counterexample:
  "total_combinations example_batch = 2 \<and>
   completed_combinations (handle_events example_batch [CancelClicked [True, True] Yes]) = 0 \<and>
   completed_combinations
     (handle_events example_batch [CancelClicked [True, True] Yes, WorkerFinished example_results]) = 0 \<and>
   completed_combinations
     (handle_events example_batch
        [CancelClicked [True, True] Yes, WorkerFinished example_results, WorkerError ''failed'']) = 0"
  by (simp add: handle_events_def example_batch_state cancel_batch_fields
      on_batch_simulation_finished_def on_batch_simulation_error_def)

text \<open>
  Claim C1, amended. In a batch of \<open>T\<close> launched runs in which no cancel request is made,
  each terminal event (success or error) raises the completed count by exactly 1: after
  \<open>k\<close> of the \<open>T\<close> events the count is \<open>k\<close>, so it never decreases and is \<open>T\<close> only after the
  last event; the batch is finalized exactly once, at the last event and as not
  cancelled, whatever the order and kind of the events.
\<close>

theorem batch_completion_count:
  assumes "\<not> is_cancelled w" and "completed_combinations w = 0" and "finalizations w = []"
    and "total_combinations w = int (length evs)" and "evs \<noteq> []"
    and "\<forall>e \<in> set evs. is_terminal_event e"
  shows "\<forall>k \<le> length evs.
           completed_combinations (handle_events w (take k evs)) = int k \<and>
           finalizations (handle_events w (take k evs)) =
             (if k = length evs
              then [BatchCompleteInfo (int (length evs)) (batch_output_folder w)] else [])"
proof (intro allI impI)
  fix k
  assume k: "k \<le> length evs"
  have te: "\<forall>e \<in> set (take k evs). is_terminal_event e"
    using assms(6) by (meson in_set_takeD)
  have len: "length (take k evs) = k" using k by simp
  note run = terminal_events_run [OF assms(1) te, unfolded len assms(2) assms(3) assms(4)]
  show "completed_combinations (handle_events w (take k evs)) = int k \<and>
        finalizations (handle_events w (take k evs)) =
          (if k = length evs
           then [BatchCompleteInfo (int (length evs)) (batch_output_folder w)] else [])"
  proof (cases "k = length evs")
    case True
    with run assms(5) show ?thesis by simp
  next
    case False
    with k have "k < length evs" by simp
    with run show ?thesis by simp
  qed
qed

theorem batch_completion_count_witness:
  "\<not> is_cancelled example_batch \<and> completed_combinations example_batch = 0 \<and>
   finalizations example_batch = [] \<and>
   total_combinations example_batch = int (length [WorkerFinished example_results, WorkerError ''failed'']) \<and>
   is_terminal_event (WorkerFinished example_results) \<and> is_terminal_event (WorkerError ''failed'') \<and>
   completed_combinations
     (handle_events example_batch [WorkerFinished example_results]) = 1 \<and>
   finalizations (handle_events example_batch [WorkerFinished example_results]) = [] \<and>
   completed_combinations
     (handle_events example_batch [WorkerFinished example_results, WorkerError ''failed'']) = 2 \<and>
   finalizations
     (handle_events example_batch [WorkerFinished example_results, WorkerError ''failed'']) =
     [BatchCompleteInfo 2 (batch_output_folder example_batch)]"
proof -
  let ?evs = "[WorkerFinished example_results, WorkerError ''failed'']"
  have h: "\<not> is_cancelled example_batch" "completed_combinations example_batch = 0"
    "finalizations example_batch = []" "total_combinations example_batch = int (length ?evs)"
    "?evs \<noteq> []" "\<forall>e \<in> set ?evs. is_terminal_event e"
    by (simp_all add: example_batch_state example_batch_finalizations)
  from batch_completion_count [OF h, THEN spec, of 1]
       batch_completion_count [OF h, THEN spec, of 2] h
  show ?thesis by simp
qed

text \<open>
  Claim C10. Once the cancellation flag is set, a terminal event (success or error)
  leaves the window as it is, so the completed count and the progress bar keep their
  values and no finalization is triggered. Along any later sequence of events the flag
  stays set, the count and the progress bar do not change, and the batch is finalized
  only by confirmed cancel requests, each time as cancelled.
\<close>

theorem cancelled_batch_ignores_terminal_events:
  assumes "is_cancelled w"
  shows "(\<forall>e. is_terminal_event e \<longrightarrow> handle_event w e = w) \<and>
         (\<forall>evs. is_cancelled (handle_events w evs) \<and>
            completed_combinations (handle_events w evs) = completed_combinations w \<and>
            progress_bar_value (handle_events w evs) = progress_bar_value w \<and>
            finalizations (handle_events w evs) =
              finalizations w @
                map (\<lambda>e. BatchCancelledInfo (completed_combinations w) (total_combinations w))
                  (filter is_confirmed_cancel evs))"
  using terminal_event_cancelled [OF assms] cancelled_events_run [OF assms] by blast

theorem cancelled_batch_ignores_terminal_events_witness:
  "is_cancelled (cancel_batch example_batch [True, True] No) \<and>
   handle_event (cancel_batch example_batch [True, True] No) (WorkerFinished example_results) =
     cancel_batch example_batch [True, True] No \<and>
   completed_combinations
     (handle_events (cancel_batch example_batch [True, True] No)
        [WorkerFinished example_results, CancelClicked [False, True] Yes, WorkerError ''failed'']) = 0 \<and>
   progress_bar_value
     (handle_events (cancel_batch example_batch [True, True] No)
        [WorkerFinished example_results, CancelClicked [False, True] Yes, WorkerError ''failed'']) = 0 \<and>
   finalizations
     (handle_events (cancel_batch example_batch [True, True] No)
        [WorkerFinished example_results, CancelClicked [False, True] Yes, WorkerError ''failed'']) =
     [BatchCancelledInfo 0 2]"
proof -
  let ?w = "cancel_batch example_batch [True, True] No"
  have c: "is_cancelled ?w" by (rule cancel_batch_fields)
  have f: "completed_combinations ?w = 0" "total_combinations ?w = 2" "progress_bar_value ?w = 0"
    "finalizations ?w = []"
    by (simp_all add: cancel_batch_fields example_batch_state example_batch_finalizations)
  let ?evs = "[WorkerFinished example_results, CancelClicked [False, True] Yes, WorkerError ''failed'']"
  note t = cancelled_batch_ignores_terminal_events [OF c]
  have "handle_event ?w (WorkerFinished example_results) = ?w"
    using t [THEN conjunct1, THEN spec, of "WorkerFinished example_results"]
    by (simp del: handle_event.simps)
  moreover have "completed_combinations (handle_events ?w ?evs) = 0"
    "progress_bar_value (handle_events ?w ?evs) = 0"
    "finalizations (handle_events ?w ?evs) = [BatchCancelledInfo 0 2]"
    using t [THEN conjunct2, THEN spec, of ?evs] f by simp_all
  ultimately show ?thesis using c by (simp del: handle_event.simps)
qed

text \<open>
  What a cancel request does to the runs: it records a quit request for the threads
  reported as running, and only when the user confirms; the workers of the list are left
  as they are.
\<close>

lemma cancel_batch_thread_list:
  "simulation_threads (cancel_batch w running answer) =
   map (\<lambda>(i, (t, wk)).
          if answer = Yes \<and> i < length running \<and> running ! i
          then (t\<lparr>quit_requested := True\<rparr>, wk) else (t, wk))
     (enumerate 0 (simulation_threads w))"
proof (cases "answer = Yes")
  case True
  then show ?thesis by (simp add: cancel_batch_def Let_def finalize_batch_def)
next
  case False
  have "map (\<lambda>(i, (t, wk)). (t, wk)) (enumerate n ts) = ts"
    for n and ts :: "(sim_thread \<times> worker) list"
    by (induction ts arbitrary: n) simp_all
  with False show ?thesis by (simp add: cancel_batch_def Let_def)
qed

lemma cancel_batch_threads:
  "map snd (simulation_threads (cancel_batch w running answer)) = map snd (simulation_threads w)"
  "map (thread_exp_name \<circ> fst) (simulation_threads (cancel_batch w running answer)) =
   map (thread_exp_name \<circ> fst) (simulation_threads w)"
  "map (quit_requested \<circ> fst) (simulation_threads (cancel_batch w running answer)) =
   map (\<lambda>(i, (t, wk)). quit_requested t \<or> (answer = Yes \<and> i < length running \<and> running ! i))
     (enumerate 0 (simulation_threads w))"
proof -
  have a: "map (snd \<circ> f) (enumerate n ts) = map snd ts"
    if "\<And>i t wk. snd (f (i, (t, wk))) = wk"
    for f :: "nat \<times> sim_thread \<times> worker \<Rightarrow> sim_thread \<times> worker" and n ts
    using that by (induction ts arbitrary: n) auto
  have b: "map (thread_exp_name \<circ> fst \<circ> f) (enumerate n ts) = map (thread_exp_name \<circ> fst) ts"
    if "\<And>i t wk. thread_exp_name (fst (f (i, (t, wk)))) = thread_exp_name t"
    for f :: "nat \<times> sim_thread \<times> worker \<Rightarrow> sim_thread \<times> worker" and n ts
    using that by (induction ts arbitrary: n) auto
  show "map snd (simulation_threads (cancel_batch w running answer)) =
        map snd (simulation_threads w)"
    unfolding cancel_batch_thread_list map_map by (rule a) simp
  show "map (thread_exp_name \<circ> fst) (simulation_threads (cancel_batch w running answer)) =
        map (thread_exp_name \<circ> fst) (simulation_threads w)"
    unfolding cancel_batch_thread_list map_map by (rule b) simp
  show "map (quit_requested \<circ> fst) (simulation_threads (cancel_batch w running answer)) =
        map (\<lambda>(i, (t, wk)). quit_requested t \<or> (answer = Yes \<and> i < length running \<and> running ! i))
          (enumerate 0 (simulation_threads w))"
    unfolding cancel_batch_thread_list map_map
    by (rule map_cong) (auto split: if_splits)
qed

lemma example_batch_workers:
  "map (exp_name \<circ> snd) (simulation_threads example_batch) = [''x_combo001'', ''x_combo002'']"
  "map (exp_dir \<circ> snd) (simulation_threads example_batch) =
     [''experiments/x_20250101_120000/x_combo001'', ''experiments/x_20250101_120000/x_combo002'']"
  by code_simp+

text \<open>
  The flag is set before the user is asked. After a cancel request that the user
  declines, the terminal events of the two runs of the example batch are ignored, and the
  batch is never finalized.
\<close>

lemma declined_cancel_blocks_finalization:
  "finalizations
     (handle_events example_batch
        [CancelClicked [True, True] No, WorkerFinished example_results, WorkerError ''failed'']) = []"
proof -
  have "handle_events example_batch
          [CancelClicked [True, True] No, WorkerFinished example_results, WorkerError ''failed''] =
        cancel_batch example_batch [True, True] No"
    using cancelled_terminal_events_run
      [of "cancel_batch example_batch [True, True] No"
          "[WorkerFinished example_results, WorkerError ''failed'']"]
    by (simp add: handle_events_def cancel_batch_fields)
  then show ?thesis
    by (simp add: cancel_batch_fields example_batch_state example_batch_finalizations)
qed

section \<open>Sweep detection and expansion\<close>

lemma update_fresh: "k \<notin> fst ` set al \<Longrightarrow> AList.update k v al = al @ [(k, v)]"
  by (induction al) auto

lemma detect_param_sweep:
  "sweep_parameters (detect_param B w (k, v)) =
     (case sweep_values B v of None \<Rightarrow> sweep_parameters w
      | Some vs \<Rightarrow> AList.update k vs (sweep_parameters w))"
  by (simp add: detect_param_def sweep_values_def Let_def split: sum.splits list.splits)

lemma detect_param_base:
  "base_parameters (detect_param B w (k, v)) =
     AList.update k (case sweep_values B v of Some (v0 # vs) \<Rightarrow> v0 | _ \<Rightarrow> v) (base_parameters w)"
  by (simp add: detect_param_def sweep_values_def Let_def split: sum.splits list.splits)

lemma detect_fold:
  assumes "distinct (map fst items)"
    and "fst ` set items \<inter> fst ` set (sweep_parameters w) = {}"
    and "fst ` set items \<inter> fst ` set (base_parameters w) = {}"
  shows "sweep_parameters (foldl (detect_param B) w items) =
           sweep_parameters w @
             List.map_filter (\<lambda>(k, v). map_option (Pair k) (sweep_values B v)) items \<and>
         base_parameters (foldl (detect_param B) w items) =
           base_parameters w @
             map (\<lambda>(k, v). (k, case sweep_values B v of Some (v0 # vs) \<Rightarrow> v0 | _ \<Rightarrow> v)) items"
  using assms
proof (induction items arbitrary: w)
  case Nil
  then show ?case by (simp add: map_filter_simps)
next
  case (Cons item items)
  obtain k v where item: "item = (k, v)" by (cases item)
  let ?w = "detect_param B w (k, v)"
  from Cons.prems item have fresh: "k \<notin> fst ` set (sweep_parameters w)"
    "k \<notin> fst ` set (base_parameters w)" and kn: "k \<notin> fst ` set items"
    and d: "distinct (map fst items)" by auto
  from kn have kn': "\<And>b. (k, b) \<notin> set items" by force
  have sw: "sweep_parameters ?w =
            sweep_parameters w @ (case sweep_values B v of None \<Rightarrow> [] | Some vs \<Rightarrow> [(k, vs)])"
    using fresh by (simp add: detect_param_sweep update_fresh split: option.splits)
  have bs: "base_parameters ?w =
            base_parameters w @ [(k, case sweep_values B v of Some (v0 # vs) \<Rightarrow> v0 | _ \<Rightarrow> v)]"
    using fresh by (simp add: detect_param_base update_fresh)
  have "fst ` set items \<inter> fst ` set (sweep_parameters ?w) = {}"
    using Cons.prems(2) kn' by (auto simp: sw split: option.splits)
  moreover have "fst ` set items \<inter> fst ` set (base_parameters ?w) = {}"
    using Cons.prems(3) kn' by (auto simp: bs)
  ultimately show ?case
    using Cons.IH [OF d, of ?w] by (simp add: item sw bs map_filter_simps split: option.splits)
qed

lemma detect_sweep_parameters_result:
  assumes "distinct (map fst (current_params w))"
  shows "sweep_parameters (fst (detect_sweep_parameters B w)) =
           List.map_filter (\<lambda>(k, v). map_option (Pair k) (sweep_values B v)) (current_params w)"
    and "base_parameters (fst (detect_sweep_parameters B w)) =
           map (\<lambda>(k, v). (k, case sweep_values B v of Some (v0 # vs) \<Rightarrow> v0 | _ \<Rightarrow> v))
             (current_params w)"
  using detect_fold [OF assms, of "w\<lparr>sweep_parameters := [], base_parameters := []\<rparr>" B]
  by (simp_all add: detect_sweep_parameters_def Let_def)

lemma itertools_product_gen:
  "foldl (\<lambda>result pool. concat (map (\<lambda>x. map (\<lambda>y. x @ [y]) pool) result)) acc pools =
   concat (map (\<lambda>a. map ((@) a) (product_lists pools)) acc)"
proof (induction pools arbitrary: acc)
  case Nil
  then show ?case by (induction acc) simp_all
next
  case (Cons p ps)
  have "concat (map (\<lambda>a. map ((@) a) (product_lists ps))
                  (concat (map (\<lambda>x. map (\<lambda>y. x @ [y]) p) acc))) =
        concat (map (\<lambda>a. map ((@) a) (product_lists (p # ps))) acc)"
  proof -
    have snoc: "(@) (a @ [x]) = (\<lambda>z. a @ x # z)" for a :: "'a list" and x
      by (simp add: fun_eq_iff)
    show ?thesis by (induction acc) (simp_all add: map_concat comp_def snoc)
  qed
  then show ?case by (simp add: Cons.IH)
qed

lemma itertools_product_lists: "itertools_product pools = product_lists pools"
proof -
  have "(@) [] = (\<lambda>z::'a list. z)" by (simp add: fun_eq_iff)
  then show ?thesis by (simp add: itertools_product_def itertools_product_gen)
qed

lemma length_product_lists_prod: "length (product_lists xss) = prod_list (map length xss)"
  by (induction xss) (simp_all add: length_concat comp_def sum_list_triv)

lemma map_upds_distinct:
  "distinct ks \<Longrightarrow> length ks = length vs \<Longrightarrow> map (m(ks [\<mapsto>] vs)) ks = map Some vs"
proof (induction ks arbitrary: vs m)
  case Nil
  then show ?case by simp
next
  case (Cons k ks)
  then obtain v vs' where vs: "vs = v # vs'" by (cases vs) auto
  from Cons.prems vs have k: "k \<notin> set ks" and d: "distinct ks" and l: "length ks = length vs'"
    by simp_all
  have "((m(k \<mapsto> v))(ks [\<mapsto>] vs')) k = Some v"
    using map_upds_apply_nontin [OF k, of "m(k \<mapsto> v)" vs'] by (simp del: map_upds_twist)
  moreover have "map ((m(k \<mapsto> v))(ks [\<mapsto>] vs')) ks = map Some vs'"
    by (rule Cons.IH [OF d l])
  ultimately show ?case by (simp only: vs map_upds_Cons list.map)
qed

lemma updates_keys_subset:
  "set ks \<subseteq> fst ` set al \<Longrightarrow> map fst (AList.updates ks vs al) = map fst al"
proof (induction ks arbitrary: vs al)
  case Nil
  then show ?case by simp
next
  case (Cons k ks)
  show ?case
  proof (cases vs)
    case Nil
    then show ?thesis by simp
  next
    case (Cons v vs')
    have "map fst (AList.update k v al) = map fst al"
      using Cons.prems by (simp add: update_keys)
    moreover have "set ks \<subseteq> fst ` set (AList.update k v al)"
      using Cons.prems by (auto simp: dom_update)
    ultimately show ?thesis using Cons.IH [of "AList.update k v al" vs'] Cons by simp
  qed
qed

lemma fold_updates:
  "foldl (\<lambda>combination (name, value). AList.update name value combination) al (zip ks vs) =
   AList.updates ks vs al"
  by (simp add: AList.updates_def foldl_conv_fold case_prod_unfold)


lemma generate_parameter_combinations_eq:
  "generate_parameter_combinations w =
   map (\<lambda>vc. AList.updates (map fst (sweep_parameters w)) vc (base_parameters w))
     (product_lists (map snd (sweep_parameters w)))"
  by (cases "sweep_parameters w = []")
     (simp_all add: generate_parameter_combinations_def Let_def itertools_product_lists fold_updates)

lemma map_filter_set:
  "set (List.map_filter (\<lambda>(k, v). map_option (Pair k) (f v)) xs) =
   {(k, vs). \<exists>v. (k, v) \<in> set xs \<and> f v = Some vs}"
  by (induction xs) (auto simp: map_filter_simps split: option.splits)

lemma map_filter_keys:
  "map fst (List.map_filter (\<lambda>(k, v). map_option (Pair k) (f v)) xs) =
   map fst (filter (\<lambda>(k, v). f v \<noteq> None) xs)"
  by (induction xs) (auto simp: map_filter_simps split: option.splits)

lemma map_of_map_values:
  "(p, v) \<in> set xs \<Longrightarrow> distinct (map fst xs) \<Longrightarrow>
   map_of (map (\<lambda>(k, v). (k, g v)) xs) p = Some (g v)"
  by (induction xs) (auto simp: rev_image_eqI)

text \<open>
  Claim C2. For a parameter dictionary, detection followed by generation returns one
  configuration per element of the Cartesian product of the value lists of the sweep
  parameters: their number is the product of the numbers of alternatives, and reading the
  sweep parameters off the configurations, in the order in which the parameters are
  declared, gives the product list in its order. The sweep parameters are the
  parameters whose text has a comma, in declaration order. Every configuration has the
  keys of the dictionary, and every parameter that is not swept has its original value
  in all of them.
\<close>

theorem sweep_expansion_cartesian:
  fixes B :: builtins and w :: main_window
  defines "w' \<equiv> fst (detect_sweep_parameters B w)"
  defines "combos \<equiv> generate_parameter_combinations w'"
  assumes dist: "distinct (map fst (current_params w))"
  shows "sweep_parameters w' =
           List.map_filter (\<lambda>(k, v). map_option (Pair k) (sweep_values B v)) (current_params w) \<and>
         length combos = prod_list (map (\<lambda>(k, vs). length vs) (sweep_parameters w')) \<and>
         map (\<lambda>c. map (map_of c) (map fst (sweep_parameters w'))) combos =
           map (map Some) (product_lists (map snd (sweep_parameters w'))) \<and>
         (\<forall>c \<in> set combos.
            map fst c = map fst (current_params w) \<and>
            (\<forall>p v. (p, v) \<in> set (current_params w) \<and> p \<notin> fst ` set (sweep_parameters w') \<longrightarrow>
                   map_of c p = Some v))"
proof -
  let ?names = "map fst (sweep_parameters w')"
  let ?axes = "map snd (sweep_parameters w')"
  let ?g = "\<lambda>v. case sweep_values B v of Some (v0 # vs) \<Rightarrow> v0 | _ \<Rightarrow> v"
  have sw: "sweep_parameters w' =
            List.map_filter (\<lambda>(k, v). map_option (Pair k) (sweep_values B v)) (current_params w)"
    and bs: "base_parameters w' = map (\<lambda>(k, v). (k, ?g v)) (current_params w)"
    unfolding w'_def by (rule detect_sweep_parameters_result [OF dist])+
  have keys: "map fst (base_parameters w') = map fst (current_params w)"
    by (simp add: bs comp_def case_prod_unfold)
  have names: "?names = map fst (filter (\<lambda>(k, v). sweep_values B v \<noteq> None) (current_params w))"
    by (simp only: sw map_filter_keys)
  have dn: "distinct ?names"
    unfolding names using dist by (rule distinct_map_filter)
  have sub: "set ?names \<subseteq> fst ` set (base_parameters w')"
  proof -
    have "set ?names \<subseteq> set (map fst (current_params w))" unfolding names by auto
    then show ?thesis using keys by (metis set_map)
  qed
  have gen: "combos = map (\<lambda>vc. AList.updates ?names vc (base_parameters w')) (product_lists ?axes)"
    unfolding combos_def by (rule generate_parameter_combinations_eq)
  have len: "length combos = prod_list (map (\<lambda>(k, vs). length vs) (sweep_parameters w'))"
    by (simp add: gen length_product_lists_prod comp_def case_prod_unfold)
  have proj: "map (\<lambda>c. map (map_of c) ?names) combos = map (map Some) (product_lists ?axes)"
  proof -
    have "map (map_of (AList.updates ?names vc (base_parameters w'))) ?names = map Some vc"
      if "vc \<in> set (product_lists ?axes)" for vc
    proof -
      from that have "length vc = length ?names"
        using in_set_product_lists_length by fastforce
      then show ?thesis
        using map_upds_distinct [OF dn, of vc "map_of (base_parameters w')"]
        by (simp only: updates_conv')
    qed
    then show ?thesis by (simp add: gen comp_def cong: map_cong)
  qed
  have rest: "map fst c = map fst (current_params w) \<and>
        (\<forall>p v. (p, v) \<in> set (current_params w) \<and> p \<notin> fst ` set (sweep_parameters w') \<longrightarrow>
               map_of c p = Some v)"
    if c: "c \<in> set combos" for c
  proof -
    from c gen obtain vc where cv: "c = AList.updates ?names vc (base_parameters w')" by auto
    have k: "map fst c = map fst (current_params w)"
      using updates_keys_subset [OF sub, of vc] keys by (simp add: cv)
    have "map_of c p = Some v"
      if pv: "(p, v) \<in> set (current_params w)" and np: "p \<notin> fst ` set (sweep_parameters w')"
      for p v
    proof -
      have "sweep_values B v = None"
      proof (rule ccontr)
        assume "sweep_values B v \<noteq> None"
        then obtain vs where "sweep_values B v = Some vs" by auto
        with pv have "(p, vs) \<in> set (sweep_parameters w')"
          by (auto simp: sw map_filter_set)
        with np show False by force
      qed
      then have "map_of (base_parameters w') p = Some v"
        using map_of_map_values [OF pv dist, of ?g] by (simp add: bs)
      moreover have "p \<notin> set ?names" using np by simp
      ultimately show ?thesis by (simp add: cv updates_conv')
    qed
    with k show ?thesis by blast
  qed
  from sw len proj rest show ?thesis by blast
qed


theorem sweep_expansion_cartesian_witness:
  "distinct (map fst (current_params example_window)) \<and>
   length (generate_parameter_combinations (fst (detect_sweep_parameters literal_builtins example_window))) = 2 \<and>
   map (\<lambda>c. map (map_of c) [''jee''])
     (generate_parameter_combinations (fst (detect_sweep_parameters literal_builtins example_window))) =
     [[Some (PInt 2)], [Some (PInt 4)]] \<and>
   map (\<lambda>c. map_of c ''jem'')
     (generate_parameter_combinations (fst (detect_sweep_parameters literal_builtins example_window))) =
     [Some (PInt 3), Some (PInt 3)]"
proof -
  have d: "distinct (map fst (current_params example_window))"
    by (simp add: example_window_def)
  have sw: "sweep_parameters (fst (detect_sweep_parameters literal_builtins example_window)) =
            [(''jee'', [PInt 2, PInt 4])]"
    by code_simp
  have jem: "map (\<lambda>c. map_of c ''jem'')
     (generate_parameter_combinations (fst (detect_sweep_parameters literal_builtins example_window))) =
     [Some (PInt 3), Some (PInt 3)]"
    by code_simp
  from sweep_expansion_cartesian [OF d, of literal_builtins] d jem show ?thesis
    by (simp add: sw)
qed

lemma length_split_on: "length (split_on sep s) = Suc (length (filter (\<lambda>c. c = sep) s))"
  by (induction s) (auto split: list.splits)

lemma split_on_two: "sep \<in> set s \<Longrightarrow> 2 \<le> length (split_on sep s)"
proof -
  assume "sep \<in> set s"
  then have "filter (\<lambda>c. c = sep) s \<noteq> []" by (simp add: filter_empty_conv)
  then have "0 < length (filter (\<lambda>c. c = sep) s)" by blast
  then show ?thesis unfolding length_split_on by linarith
qed

lemma convert_tokens_length: "convert_tokens B ts = Inr vs \<Longrightarrow> length vs = length ts"
  by (induction ts arbitrary: vs) (auto split: sum.splits)

lemma sweep_values_length: "sweep_values B v = Some vs \<Longrightarrow> 2 \<le> length vs"
  by (auto simp: sweep_values_def split: if_splits sum.splits
      dest!: convert_tokens_length intro: split_on_two)

lemma convert_to_number_cases:
  assumes "\<forall>s e. py_int B s = Inl e \<longrightarrow> e = ValueError"
    and "\<forall>s e. py_float B s = Inl e \<longrightarrow> e = ValueError"
  shows "(\<exists>x. convert_to_number B t = Inr x) \<and>
         (conversion_fails B t \<longrightarrow> convert_to_number B t = Inr (PStr t))"
proof (cases "CHR ''.'' \<in> set t")
  case True
  show ?thesis
  proof (cases "py_float B t")
    case (Inl e)
    with assms(2) have "py_float B t = Inl ValueError" by simp
    with True show ?thesis by (simp add: convert_to_number_def conversion_fails_def)
  next
    case (Inr x)
    with True show ?thesis by (simp add: convert_to_number_def conversion_fails_def)
  qed
next
  case False
  show ?thesis
  proof (cases "py_int B t")
    case (Inl e)
    with assms(1) have "py_int B t = Inl ValueError" by simp
    with False show ?thesis by (simp add: convert_to_number_def conversion_fails_def)
  next
    case (Inr x)
    with False show ?thesis by (simp add: convert_to_number_def conversion_fails_def)
  qed
qed

lemma convert_tokens_total:
  assumes "\<forall>s e. py_int B s = Inl e \<longrightarrow> e = ValueError"
    and "\<forall>s e. py_float B s = Inl e \<longrightarrow> e = ValueError"
  shows "\<exists>vs. convert_tokens B ts = Inr vs \<and>
              map Inr vs = map (\<lambda>t. convert_to_number B (strip t)) ts"
proof (induction ts)
  case Nil
  then show ?case by simp
next
  case (Cons t ts)
  from convert_to_number_cases [OF assms, of "strip t"]
  obtain x where x: "convert_to_number B (strip t) = Inr x" by blast
  from Cons obtain vs where "convert_tokens B ts = Inr vs"
    "map Inr vs = map (\<lambda>t. convert_to_number B (strip t)) ts" by blast
  with x show ?case by simp
qed

lemma prod_list_positive: "\<forall>n \<in> set ns. 0 < n \<Longrightarrow> 0 < prod_list (ns :: nat list)"
  by (induction ns) simp_all

lemma map_of_map_filter_values:
  "(k, v) \<in> set xs \<Longrightarrow> distinct (map fst xs) \<Longrightarrow>
   map_of (List.map_filter (\<lambda>(k, v). map_option (Pair k) (f v)) xs) k = f v"
proof (induction xs)
  case Nil
  then show ?case by simp
next
  case (Cons x xs)
  obtain k' v' where x: "x = (k', v')" by (cases x)
  show ?case
  proof (cases "k' = k")
    case True
    with Cons.prems x have v: "v' = v" by (auto simp: rev_image_eqI)
    have "k \<notin> fst ` set (List.map_filter (\<lambda>(k, v). map_option (Pair k) (f v)) xs)"
      using Cons.prems True x by (auto simp: map_filter_set rev_image_eqI)
    then have "map_of (List.map_filter (\<lambda>(k, v). map_option (Pair k) (f v)) xs) k = None"
      by (simp add: map_of_eq_None_iff)
    then show ?thesis using True x v by (cases "f v") (simp_all add: map_filter_simps)
  next
    case False
    with Cons x show ?thesis by (cases "f v'") (auto simp: map_filter_simps)
  qed
qed

text \<open>
  Claim C9. \<^verbatim>\<open>int\<close> and \<^verbatim>\<open>float\<close> raise nothing but \<^verbatim>\<open>ValueError\<close> on a string.
  Then the token conversion never raises, and a token whose numeric conversion fails is
  returned as the string it is. So for every parameter whose text has a comma the
  detection does not fall back to the whole field: the parameter is stored as a sweep
  over the converted, whitespace-trimmed tokens (at least two), its base value is the
  first alternative, and the expansion yields at least one configuration.
\<close>

theorem sweep_tokens_kept_as_text:
  fixes B :: builtins and w :: main_window
  defines "w' \<equiv> fst (detect_sweep_parameters B w)"
  assumes int_err: "\<forall>s e. py_int B s = Inl e \<longrightarrow> e = ValueError"
    and float_err: "\<forall>s e. py_float B s = Inl e \<longrightarrow> e = ValueError"
    and dist: "distinct (map fst (current_params w))"
    and kv: "(k, v) \<in> set (current_params w)"
    and comma: "CHR '','' \<in> set (py_str B v)"
  shows "(\<forall>t. (\<exists>x. convert_to_number B t = Inr x) \<and>
              (conversion_fails B t \<longrightarrow> convert_to_number B t = Inr (PStr t))) \<and>
         (\<exists>v0 vs. map_of (sweep_parameters w') k = Some (v0 # vs) \<and> vs \<noteq> [] \<and>
            map Inr (v0 # vs) =
              map (\<lambda>t. convert_to_number B (strip t)) (split_on CHR '','' (py_str B v)) \<and>
            map_of (base_parameters w') k = Some v0) \<and>
         generate_parameter_combinations w' \<noteq> []"
proof -
  let ?g = "\<lambda>v. case sweep_values B v of Some (v0 # vs) \<Rightarrow> v0 | _ \<Rightarrow> v"
  have sw: "sweep_parameters w' =
            List.map_filter (\<lambda>(k, v). map_option (Pair k) (sweep_values B v)) (current_params w)"
    and bs: "base_parameters w' = map (\<lambda>(k, v). (k, ?g v)) (current_params w)"
    unfolding w'_def by (rule detect_sweep_parameters_result [OF dist])+
  from convert_tokens_total [OF int_err float_err, of "split_on CHR '','' (py_str B v)"]
  obtain xs where xs: "convert_tokens B (split_on CHR '','' (py_str B v)) = Inr xs"
    and mp: "map Inr xs = map (\<lambda>t. convert_to_number B (strip t)) (split_on CHR '','' (py_str B v))"
    by blast
  have sv: "sweep_values B v = Some xs" using comma xs by (simp add: sweep_values_def)
  from sweep_values_length [OF sv] obtain v0 v1 vs where xs_eq: "xs = v0 # v1 # vs"
    by (cases xs; cases "tl xs") auto
  have "map_of (sweep_parameters w') k = Some xs"
    using map_of_map_filter_values [OF kv dist, of "sweep_values B"] sv by (simp add: sw)
  moreover have "map_of (base_parameters w') k = Some v0"
    using map_of_map_values [OF kv dist, of ?g] by (simp add: bs sv xs_eq)
  ultimately have entry: "\<exists>v0 vs. map_of (sweep_parameters w') k = Some (v0 # vs) \<and> vs \<noteq> [] \<and>
            map Inr (v0 # vs) =
              map (\<lambda>t. convert_to_number B (strip t)) (split_on CHR '','' (py_str B v)) \<and>
            map_of (base_parameters w') k = Some v0"
    using mp xs_eq by auto
  have "length (generate_parameter_combinations w') =
        prod_list (map (\<lambda>(k, vs). length vs) (sweep_parameters w'))"
    by (simp add: generate_parameter_combinations_eq length_product_lists_prod comp_def
        case_prod_unfold)
  moreover have "0 < prod_list (map (\<lambda>(k, vs). length vs) (sweep_parameters w'))"
  proof -
    have "\<forall>n \<in> set (map (\<lambda>(k, vs). length vs) (sweep_parameters w')). 0 < n"
      using sweep_values_length by (fastforce simp: sw map_filter_set)
    then show ?thesis by (rule prod_list_positive)
  qed
  ultimately have "generate_parameter_combinations w' \<noteq> []" by auto
  with entry convert_to_number_cases [OF int_err float_err] show ?thesis by blast
qed

theorem sweep_tokens_kept_as_text_witness:
  "conversion_fails literal_builtins ''abc'' \<and>
   convert_to_number literal_builtins ''abc'' = Inr (PStr ''abc'') \<and>
   map_of (sweep_parameters (fst (detect_sweep_parameters literal_builtins
       (example_window\<lparr>current_params := [(''jee'', PStr ''2, abc ,4'')]\<rparr>)))) ''jee'' =
     Some [PInt 2, PStr ''abc'', PInt 4] \<and>
   map_of (base_parameters (fst (detect_sweep_parameters literal_builtins
       (example_window\<lparr>current_params := [(''jee'', PStr ''2, abc ,4'')]\<rparr>)))) ''jee'' =
     Some (PInt 2)"
proof -
  let ?w = "example_window\<lparr>current_params := [(''jee'', PStr ''2, abc ,4'')]\<rparr>"
  have ie: "\<forall>s e. py_int literal_builtins s = Inl e \<longrightarrow> e = ValueError"
    and fe: "\<forall>s e. py_float literal_builtins s = Inl e \<longrightarrow> e = ValueError"
    by (simp_all add: literal_builtins_def)
  have d: "distinct (map fst (current_params ?w))"
    and kv: "(''jee'', PStr ''2, abc ,4'') \<in> set (current_params ?w)"
    and comma: "CHR '','' \<in> set (py_str literal_builtins (PStr ''2, abc ,4''))"
    by (simp_all add: py_str_def)
  have cf: "conversion_fails literal_builtins ''abc''"
    by (simp add: conversion_fails_def literal_builtins_def is_digit_def)
  have toks: "map (\<lambda>t. convert_to_number literal_builtins (strip t))
                (split_on CHR '','' (py_str literal_builtins (PStr ''2, abc ,4''))) =
              [Inr (PInt 2), Inr (PStr ''abc''), Inr (PInt 4)]"
    by code_simp
  note t = sweep_tokens_kept_as_text [OF ie fe d kv comma]
  from t cf have cv: "convert_to_number literal_builtins ''abc'' = Inr (PStr ''abc'')" by blast
  from t [unfolded toks, THEN conjunct2, THEN conjunct1] cf cv show ?thesis
    by (elim exE conjE) (auto simp: map_eq_Cons_conv)
qed

section \<open>Rounding is monotone, and so is the progress percentage\<close>

lemma round_half_even_of_int [simp]: "round_half_even (of_int k) = k"
  by (simp add: round_half_even_def)

lemma round_half_even_mono: "x \<le> y \<Longrightarrow> round_half_even x \<le> round_half_even y"
proof -
  assume le: "x \<le> y"
  have fx: "of_int \<lfloor>x\<rfloor> \<le> x" "x < of_int \<lfloor>x\<rfloor> + 1" by linarith+
  have fy: "of_int \<lfloor>y\<rfloor> \<le> y" "y < of_int \<lfloor>y\<rfloor> + 1" by linarith+
  have fl: "\<lfloor>x\<rfloor> \<le> \<lfloor>y\<rfloor>" using le by (rule floor_mono)
  show ?thesis
  proof (cases "\<lfloor>x\<rfloor> = \<lfloor>y\<rfloor>")
    case True
    with le show ?thesis by (auto simp: round_half_even_def Let_def)
  next
    case False
    with fl have lt: "\<lfloor>x\<rfloor> + 1 \<le> \<lfloor>y\<rfloor>" by simp
    have "round_half_even x \<le> \<lfloor>x\<rfloor> + 1" by (auto simp: round_half_even_def Let_def)
    moreover have "\<lfloor>y\<rfloor> \<le> round_half_even y" by (auto simp: round_half_even_def Let_def)
    ultimately show ?thesis using lt by linarith
  qed
qed

lemma halvings_bounds:
  "1 \<le> x \<Longrightarrow> halvings n x \<le> n \<and> 2 ^ halvings n x \<le> x \<and>
     (halvings n x < n \<longrightarrow> x < 2 ^ Suc (halvings n x))"
proof (induction n arbitrary: x)
  case 0
  then show ?case by simp
next
  case (Suc n)
  show ?case
  proof (cases "x < 2")
    case True
    with Suc.prems show ?thesis by simp
  next
    case False
    then have "1 \<le> x / 2" by simp
    from Suc.IH [OF this] False show ?thesis by (auto simp: field_simps)
  qed
qed

lemma doublings_bounds:
  "0 < x \<Longrightarrow> x < 2 \<Longrightarrow> doublings n x \<le> n \<and> x * 2 ^ doublings n x < 2 \<and>
     (doublings n x < n \<longrightarrow> 1 \<le> x * 2 ^ doublings n x)"
proof (induction n arbitrary: x)
  case 0
  then show ?case by simp
next
  case (Suc n)
  show ?case
  proof (cases "1 \<le> x")
    case True
    with Suc.prems show ?thesis by simp
  next
    case False
    then have "0 < x * 2" "x * 2 < 2" using Suc.prems by simp_all
    from Suc.IH [OF this] False show ?thesis by (auto simp: field_simps)
  qed
qed

lemma binade_bounds:
  assumes "0 < x"
  shows "- 1022 \<le> binade x" "binade x \<le> 1024"
    "- 1022 < binade x \<Longrightarrow> 2 powi binade x \<le> x"
    "binade x < 1024 \<Longrightarrow> x < 2 powi (binade x + 1)"
proof -
  show "- 1022 \<le> binade x" "binade x \<le> 1024"
    using halvings_bounds [of x 1024] doublings_bounds [of x 1022] assms
    by (auto simp: binade_def)
  show "2 powi binade x \<le> x" if "- 1022 < binade x"
  proof (cases "1 \<le> x")
    case True
    with halvings_bounds [OF True, of 1024] show ?thesis by (simp add: binade_def)
  next
    case False
    with that have d: "doublings 1022 x < 1022" by (simp add: binade_def)
    from False assms doublings_bounds [of x 1022] d
    have "1 \<le> x * 2 ^ doublings 1022 x" by simp
    then have "1 / 2 ^ doublings 1022 x \<le> x" by (simp add: field_simps)
    with False show ?thesis by (simp add: binade_def power_int_minus field_simps)
  qed
  show "x < 2 powi (binade x + 1)" if "binade x < 1024"
  proof (cases "1 \<le> x")
    case True
    with that have "halvings 1024 x < 1024" by (simp add: binade_def)
    with halvings_bounds [OF True, of 1024] have "x < 2 ^ Suc (halvings 1024 x)" by simp
    also have "\<dots> = 2 powi (int (halvings 1024 x) + 1)"
      by (simp add: power_int_add)
    finally show ?thesis using True by (simp add: binade_def)
  next
    case False
    with assms doublings_bounds [of x 1022] have "x * 2 ^ doublings 1022 x < 2" by simp
    then have "x < 2 / 2 ^ doublings 1022 x" by (simp add: field_simps)
    also have "\<dots> = 2 powi (- int (doublings 1022 x) + 1)"
    proof -
      have "(2::rat) powi (- int (doublings 1022 x) + 1) = 2 powi (- int (doublings 1022 x)) * 2"
        by (subst power_int_add) simp_all
      also have "\<dots> = inverse (2 ^ doublings 1022 x) * 2"
        by (simp add: power_int_minus)
      finally show ?thesis by (simp add: divide_inverse)
    qed
    finally show ?thesis using False by (simp add: binade_def)
  qed
qed

lemma binade_mono:
  assumes "0 < a" "a \<le> b"
  shows "binade a \<le> binade b"
proof (rule ccontr)
  assume "\<not> binade a \<le> binade b"
  then have lt: "binade b < binade a" by simp
  have b: "0 < b" using assms by simp
  from lt binade_bounds(1) [OF b] have "- 1022 < binade a" by linarith
  then have "2 powi binade a \<le> a" by (rule binade_bounds(3) [OF assms(1)])
  moreover from lt binade_bounds(2) [OF assms(1)] have "binade b < 1024" by linarith
  then have "b < 2 powi (binade b + 1)" by (rule binade_bounds(4) [OF b])
  moreover have "(2::rat) powi (binade b + 1) \<le> 2 powi binade a"
    using lt by (intro power_int_increasing) simp_all
  ultimately show False using assms(2) by linarith
qed


lemma quantum_pos: "0 < (2::rat) powi k"
  by (simp add: zero_less_power_int)

lemma quantum_split: "(2::rat) powi (e + 1) = 2 ^ 53 * 2 powi (e - 52)"
proof -
  have "e + 1 = 53 + (e - 52)" by arith
  then have "(2::rat) powi (e + 1) = 2 powi (53 + (e - 52))" by (rule arg_cong)
  also have "\<dots> = 2 powi 53 * 2 powi (e - 52)" by (subst power_int_add) simp_all
  finally show ?thesis by simp
qed

lemma quantum_split': "(2::rat) powi e = 2 ^ 52 * 2 powi (e - 52)"
proof -
  have "e = 52 + (e - 52)" by arith
  then have "(2::rat) powi e = 2 powi (52 + (e - 52))" by (rule arg_cong)
  also have "\<dots> = 2 powi 52 * 2 powi (e - 52)" by (subst power_int_add) simp_all
  finally show ?thesis by simp
qed

lemma round53_upper:
  assumes "x \<le> 2 powi (binade x + 1)"
  shows "round53 x \<le> 2 powi (binade x + 1)"
proof -
  let ?q = "(2::rat) powi (binade x - 52)"
  have q: "0 < ?q" by (rule quantum_pos)
  from assms have "x \<le> 2 ^ 53 * ?q" by (simp only: quantum_split)
  then have "x / ?q \<le> of_int (2 ^ 53)" using q by (simp add: field_simps)
  then have "round_half_even (x / ?q) \<le> round_half_even (of_int (2 ^ 53))"
    by (rule round_half_even_mono)
  then have "round_half_even (x / ?q) \<le> 2 ^ 53" by (simp only: round_half_even_of_int)
  then have "(of_int (round_half_even (x / ?q)) :: rat) \<le> of_int (2 ^ 53)"
    by (simp only: of_int_le_iff)
  then have "of_int (round_half_even (x / ?q)) * ?q \<le> of_int (2 ^ 53) * ?q"
    using q by (intro mult_right_mono) simp_all
  then show ?thesis by (simp add: round53_def quantum_split [of "binade x"])
qed

lemma round53_lower:
  assumes "2 powi binade x \<le> x"
  shows "2 powi binade x \<le> round53 x"
proof -
  let ?q = "(2::rat) powi (binade x - 52)"
  have q: "0 < ?q" by (rule quantum_pos)
  from assms have "2 ^ 52 * ?q \<le> x" by (simp only: quantum_split' [symmetric])
  then have "of_int (2 ^ 52) \<le> x / ?q" using q by (simp add: field_simps)
  then have "round_half_even (of_int (2 ^ 52)) \<le> round_half_even (x / ?q)"
    by (rule round_half_even_mono)
  then have "2 ^ 52 \<le> round_half_even (x / ?q)" by (simp only: round_half_even_of_int)
  then have "(of_int (2 ^ 52) :: rat) \<le> of_int (round_half_even (x / ?q))"
    by (simp only: of_int_le_iff)
  then have "of_int (2 ^ 52) * ?q \<le> of_int (round_half_even (x / ?q)) * ?q"
    using q by (intro mult_right_mono) simp_all
  then show ?thesis by (simp add: round53_def quantum_split' [of "binade x"])
qed

lemma round53_nonneg: "0 \<le> x \<Longrightarrow> 0 \<le> round53 x"
proof -
  assume x: "0 \<le> x"
  let ?q = "(2::rat) powi (binade x - 52)"
  have q: "0 < ?q" by (rule quantum_pos)
  have "of_int 0 \<le> x / ?q" using x q by simp
  then have "round_half_even (of_int 0) \<le> round_half_even (x / ?q)"
    by (rule round_half_even_mono)
  then have "0 \<le> round_half_even (x / ?q)" by (simp only: round_half_even_of_int)
  then show ?thesis using q by (simp add: round53_def)
qed

lemma round53_zero [simp]: "round53 0 = 0"
  using round_half_even_of_int [of 0] by (simp add: round53_def)

lemma round53_mono:
  assumes "0 \<le> a" "a \<le> b"
  shows "round53 a \<le> round53 b"
proof (cases "a = 0")
  case True
  with assms round53_nonneg [of b] show ?thesis by simp
next
  case False
  with assms have a: "0 < a" and b: "0 < b" by simp_all
  show ?thesis
  proof (cases "binade a = binade b")
    case True
    let ?q = "(2::rat) powi (binade b - 52)"
    have q: "0 < ?q" by (rule quantum_pos)
    have "a / ?q \<le> b / ?q" using assms(2) q by (simp add: divide_right_mono)
    then have "round_half_even (a / ?q) \<le> round_half_even (b / ?q)"
      by (rule round_half_even_mono)
    then have "(of_int (round_half_even (a / ?q)) :: rat) \<le> of_int (round_half_even (b / ?q))"
      by (simp only: of_int_le_iff)
    then have "of_int (round_half_even (a / ?q)) * ?q \<le> of_int (round_half_even (b / ?q)) * ?q"
      using q by (intro mult_right_mono) simp_all
    then show ?thesis by (simp add: round53_def True)
  next
    case False
    with binade_mono [OF a assms(2)] have lt: "binade a < binade b" by simp
    from lt binade_bounds(2) [OF b] have "binade a < 1024" by linarith
    then have "a \<le> 2 powi (binade a + 1)" using binade_bounds(4) [OF a] by simp
    then have "round53 a \<le> 2 powi (binade a + 1)" by (rule round53_upper)
    also have "(2::rat) powi (binade a + 1) \<le> 2 powi binade b"
      using lt by (intro power_int_increasing) simp_all
    also have "\<dots> \<le> round53 b"
    proof (rule round53_lower)
      from lt binade_bounds(1) [OF a] have "- 1022 < binade b" by linarith
      then show "2 powi binade b \<le> b" by (rule binade_bounds(3) [OF b])
    qed
    finally show ?thesis .
  qed
qed

lemma round_to_double_nonneg:
  "0 \<le> x \<Longrightarrow> round_to_double x = (if 2 ^ 1024 \<le> round53 x then PosInf else Fin (round53 x))"
  by (cases "x = 0") (simp_all add: round_to_double_def)


lemma floor_rat_numeral: "\<lfloor>numeral a / numeral b :: rat\<rfloor> = numeral a div numeral b"
  using floor_divide_of_int_eq [of "numeral a" "numeral b", where ?'a = rat] by simp

lemma halvings_numeral:
  "halvings (numeral k) x = (if x < 2 then 0 else Suc (halvings (pred_numeral k) (x / 2)))"
  by (simp add: numeral_eq_Suc)

lemma doublings_numeral:
  "doublings (numeral k) x = (if 1 \<le> x then 0 else Suc (doublings (pred_numeral k) (x * 2)))"
  by (simp add: numeral_eq_Suc)

lemmas float_eval = floor_rat_numeral round_to_double_def round53_def binade_def
  round_half_even_def Let_def halvings_numeral doublings_numeral inverse_eq_divide
  float_of_int_def float_mul_int_def int_div_int_def

lemma float_of_int_100: "float_of_int 100 = Inr (Fin 100)"
  by (simp add: float_eval)

lemma round_to_double_mono:
  assumes "0 \<le> u" "u \<le> v"
  shows "nonneg_le (round_to_double u) (round_to_double v)"
proof -
  have v: "0 \<le> v" using assms by simp
  have "round53 u \<le> round53 v" using assms by (rule round53_mono)
  moreover have "0 \<le> round53 u" using assms(1) by (rule round53_nonneg)
  ultimately show ?thesis
    by (simp add: round_to_double_nonneg [OF assms(1)] round_to_double_nonneg [OF v])
qed

lemma float_of_int_mono:
  assumes "0 \<le> s1" "s1 \<le> s2" "float_of_int s1 = Inr x1" "float_of_int s2 = Inr x2"
  shows "\<exists>a b. x1 = Fin a \<and> x2 = Fin b \<and> 0 \<le> a \<and> a \<le> b"
proof -
  have "nonneg_le (round_to_double (of_int s1)) (round_to_double (of_int s2))"
    using assms(1,2) by (intro round_to_double_mono) simp_all
  moreover from assms(3,4) obtain a b where
    "round_to_double (of_int s1) = Fin a" "x1 = Fin a"
    "round_to_double (of_int s2) = Fin b" "x2 = Fin b"
    by (auto simp: float_of_int_def split: pyfloat.splits)
  ultimately show ?thesis by simp
qed

lemma float_div_mono:
  assumes "0 \<le> a" "a \<le> b" "value_positive (PFloat d) = Inr True"
    "float_div (Fin a) d = Inr y1" "float_div (Fin b) d = Inr y2"
  shows "nonneg_le y1 y2"
proof (cases d)
  case (Fin r)
  with assms(3) have r: "0 < r" by simp
  from assms(1,2) have "0 \<le> a / r" "a / r \<le> b / r" using r by (simp_all add: divide_right_mono)
  then have "nonneg_le (round_to_double (a / r)) (round_to_double (b / r))"
    by (rule round_to_double_mono)
  with assms(4,5) Fin r show ?thesis by auto
next
  case PosInf
  with assms show ?thesis by auto
qed (use assms(3) in simp_all)

lemma int_truediv_mono:
  assumes pos: "value_positive sim = Inr True" and s: "0 \<le> s1" "s1 \<le> s2"
    and x1: "int_truediv s1 sim = Inr x1" and x2: "int_truediv s2 sim = Inr x2"
  shows "nonneg_le x1 x2"
proof -
  have ints: "nonneg_le x1 x2"
    if n: "0 < n" and d1: "int_div_int s1 n = Inr x1" and d2: "int_div_int s2 n = Inr x2" for n
  proof -
    have "(0::rat) \<le> of_int s1 / of_int n" "(of_int s1 :: rat) / of_int n \<le> of_int s2 / of_int n"
      using s n by (simp_all add: divide_right_mono)
    then have "nonneg_le (round_to_double (of_int s1 / of_int n))
                 (round_to_double (of_int s2 / of_int n))"
      by (rule round_to_double_mono)
    with d1 d2 n show ?thesis
      by (auto simp: int_div_int_def split: pyfloat.splits if_splits)
  qed
  show ?thesis
  proof (cases sim)
    case (PInt n)
    with pos x1 x2 ints [of n] show ?thesis by simp
  next
    case (PBool b)
    with pos x1 x2 ints [of 1] show ?thesis by simp
  next
    case (PFloat d)
    from x1 PFloat obtain a1 where a1: "float_of_int s1 = Inr a1" "float_div a1 d = Inr x1"
      by (auto split: sum.splits)
    from x2 PFloat obtain a2 where a2: "float_of_int s2 = Inr a2" "float_div a2 d = Inr x2"
      by (auto split: sum.splits)
    from float_of_int_mono [OF s a1(1) a2(1)] obtain a b where
      ab: "a1 = Fin a" "a2 = Fin b" "0 \<le> a" "a \<le> b" by blast
    from pos PFloat have "value_positive (PFloat d) = Inr True" by simp
    with ab a1(2) a2(2) show ?thesis by (intro float_div_mono [of a b d]) simp_all
  next
    case (PStr t)
    with pos show ?thesis by simp
  qed
qed

lemma float_mul_100_mono:
  assumes "nonneg_le x1 x2" "float_mul_int x1 100 = Inr y1" "float_mul_int x2 100 = Inr y2"
  shows "nonneg_le y1 y2"
proof -
  from assms(2,3) have y: "y1 = float_mul x1 (Fin 100)" "y2 = float_mul x2 (Fin 100)"
    by (simp_all add: float_mul_int_def float_of_int_100)
  show ?thesis
  proof (cases x1)
    case x1: (Fin a)
    show ?thesis
    proof (cases x2)
      case x2: (Fin b)
      from assms(1) x1 x2 have "0 \<le> a * 100" "a * 100 \<le> b * 100" by simp_all
      then have "nonneg_le (round_to_double (a * 100)) (round_to_double (b * 100))"
        by (rule round_to_double_mono)
      with y x1 x2 show ?thesis by simp
    next
      case PosInf
      from assms(1) x1 have "0 \<le> a * 100" using PosInf by simp
      then have "nonneg_le (round_to_double (a * 100)) PosInf"
        by (simp add: round_to_double_nonneg round53_nonneg)
      with y x1 PosInf show ?thesis by simp
    qed (use assms(1) x1 in simp_all)
  next
    case PosInf
    with assms(1) have "x2 = PosInf" by (cases x2) simp_all
    with y PosInf show ?thesis by simp
  qed (use assms(1) in simp_all)
qed

lemma int_of_float_mono:
  assumes "nonneg_le y1 y2" "int_of_float y1 = Inr p1" "int_of_float y2 = Inr p2"
  shows "p1 \<le> p2"
  using assms by (cases y1; cases y2) (auto intro: floor_mono)

lemma progress_signal_parts:
  assumes "progress_signal B sim s = Inr sg"
  shows "\<exists>x y pct m. int_truediv s sim = Inr x \<and> float_mul_int x 100 = Inr y \<and>
           int_of_float y = Inr pct \<and> sg = Progress (min 95 pct) m"
  using assms by (auto simp: progress_signal_def split: sum.splits)

lemma progress_signal_capped:
  "progress_signal B sim s = Inr sg \<Longrightarrow> \<exists>p m. sg = Progress p m \<and> p \<le> 95"
  by (auto dest!: progress_signal_parts)

lemma progress_signal_mono:
  assumes "value_positive sim = Inr True" "0 \<le> s1" "s1 \<le> s2"
    and "progress_signal B sim s1 = Inr (Progress p1 m1)"
    and "progress_signal B sim s2 = Inr (Progress p2 m2)"
  shows "p1 \<le> p2"
proof -
  from progress_signal_parts [OF assms(4)] obtain x1 y1 q1 where
    1: "int_truediv s1 sim = Inr x1" "float_mul_int x1 100 = Inr y1" "int_of_float y1 = Inr q1"
      "p1 = min 95 q1" by auto
  from progress_signal_parts [OF assms(5)] obtain x2 y2 q2 where
    2: "int_truediv s2 sim = Inr x2" "float_mul_int x2 100 = Inr y2" "int_of_float y2 = Inr q2"
      "p2 = min 95 q2" by auto
  have "nonneg_le x1 x2" using assms(1-3) 1(1) 2(1) by (rule int_truediv_mono)
  then have "nonneg_le y1 y2" using 1(2) 2(2) by (rule float_mul_100_mono)
  then have "q1 \<le> q2" using 1(3) 2(3) by (rule int_of_float_mono)
  with 1(4) 2(4) show ?thesis by simp
qed

section \<open>The signals of one run\<close>

text \<open>The example worker is the one constructed for its parameters.\<close>

lemma example_worker_constructed:
  "init_worker literal_builtins [(''exp_name'', PStr ''x''), (''sim_time'', PInt 1000)]
     ''experiments'' = Inr example_worker"
  by code_simp

lemma emit_fields [simp]:
  "sim_time (emit w s) = sim_time w" "emitted (emit w s) = emitted w @ [s]"
  "stdout_log (emit w s) = stdout_log w" "stderr_log (emit w s) = stderr_log w"
  "process (emit w s) = process w" "temp_script (emit w s) = temp_script w"
  by (simp_all add: emit_def)

lemma monitor_loop_result:
  assumes "polls n = Exited" "i \<le> n"
  shows "\<exists>steps mon.
           sorted_wrt (<) steps \<and> (\<forall>s \<in> set steps. last_step < s) \<and>
           map Inr mon = map (progress_signal B (sim_time w)) steps \<and>
           monitor_loop B polls i last_step w = Some (w\<lparr>emitted := emitted w @ mon\<rparr>)"
  using assms(2)
proof (induction "n - i" arbitrary: i last_step w)
  case 0
  then have "i = n" by simp
  with assms(1) have "monitor_loop B polls i last_step w = Some w"
    by (subst monitor_loop.simps) simp
  then show ?case
    by (intro exI [of _ "[]"]) simp
next
  case (Suc k)
  show ?case
  proof (cases "polls i")
    case Exited
    then have "monitor_loop B polls i last_step w = Some w"
      by (subst monitor_loop.simps) simp
    then show ?thesis by (intro exI [of _ "[]"]) simp
  next
    case (Alive current_step)
    from Suc.hyps(2) have k: "k = n - Suc i" and le: "Suc i \<le> n" by simp_all
    show ?thesis
    proof (cases "last_step < current_step \<and> (\<exists>sg. progress_signal B (sim_time w) current_step = Inr sg)")
      case True
      then obtain sg where lt: "last_step < current_step"
        and sg: "progress_signal B (sim_time w) current_step = Inr sg" by blast
      from Suc.hyps(1) [OF k le, of current_step "emit w sg"]
      obtain steps mon where
        st: "sorted_wrt (<) steps" "\<forall>s \<in> set steps. current_step < s"
          "map Inr mon = map (progress_signal B (sim_time w)) steps"
          "monitor_loop B polls (Suc i) current_step (emit w sg) =
             Some ((emit w sg)\<lparr>emitted := emitted (emit w sg) @ mon\<rparr>)"
        by auto
      have "monitor_loop B polls i last_step w =
            monitor_loop B polls (Suc i) current_step (emit w sg)"
        using Alive lt sg by (subst monitor_loop.simps) simp
      also have "\<dots> = Some ((emit w sg)\<lparr>emitted := emitted (emit w sg) @ mon\<rparr>)"
        by (rule st(4))
      also have "\<dots> = Some (w\<lparr>emitted := emitted w @ (sg # mon)\<rparr>)"
        by (simp add: emit_def)
      finally have res: "monitor_loop B polls i last_step w =
                         Some (w\<lparr>emitted := emitted w @ (sg # mon)\<rparr>)" .
      have "sorted_wrt (<) (current_step # steps)" using st(1,2) by simp
      moreover have "\<forall>s \<in> set (current_step # steps). last_step < s"
        using st(2) lt by auto
      moreover have "map Inr (sg # mon) =
                     map (progress_signal B (sim_time w)) (current_step # steps)"
        using st(3) sg by simp
      ultimately show ?thesis using res by blast
    next
      case False
      from Suc.hyps(1) [OF k le, of last_step w]
      obtain steps mon where
        st: "sorted_wrt (<) steps" "\<forall>s \<in> set steps. last_step < s"
          "map Inr mon = map (progress_signal B (sim_time w)) steps"
          "monitor_loop B polls (Suc i) last_step w = Some (w\<lparr>emitted := emitted w @ mon\<rparr>)"
        by auto
      have "monitor_loop B polls i last_step w = monitor_loop B polls (Suc i) last_step w"
        using Alive False by (subst monitor_loop.simps) (auto split: sum.splits)
      with st show ?thesis by auto
    qed
  qed
qed

lemma run_launch_signals:
  "\<exists>fixed. emitted (snd (run_launch env w)) = emitted w @ fixed \<and>
     map percentage fixed \<in> {[Some 0], [Some 0, Some 5], [Some 0, Some 5, Some 10]} \<and>
     sim_time (snd (run_launch env w)) = sim_time w"
  by (simp add: run_launch_def Let_def emit_def split: sum.splits option.splits)

lemma monitor_progress_signals:
  assumes "child_polls env n = Exited"
  shows "\<exists>steps mon w'.
           sorted_wrt (<) steps \<and> (\<forall>s \<in> set steps. 0 < s) \<and>
           map Inr mon = map (progress_signal B (sim_time w)) steps \<and>
           monitor_progress B env w = Some w' \<and> emitted w' = emitted w @ mon \<and>
           sim_time w' = sim_time w"
proof -
  from monitor_loop_result [of "child_polls env" n 0 0 B "w\<lparr>monitoring := True\<rparr>"] assms
  obtain steps mon where
    "sorted_wrt (<) steps" "\<forall>s \<in> set steps. 0 < s"
    "map Inr mon = map (progress_signal B (sim_time w)) steps"
    "monitor_loop B (child_polls env) 0 0 (w\<lparr>monitoring := True\<rparr>) =
       Some (w\<lparr>monitoring := True, emitted := emitted w @ mon\<rparr>)"
    by auto
  then show ?thesis by (auto simp: monitor_progress_def)
qed

lemma wait_for_process_signals:
  "emitted (snd (wait_for_process env w)) = emitted w \<and>
   sim_time (snd (wait_for_process env w)) = sim_time w \<and>
   (\<forall>exit_code out err. fst (wait_for_process env w) = Inr (exit_code, out, err) \<longrightarrow>
      process_wait env = Inr exit_code)"
  by (auto simp: wait_for_process_def close_and_read_logs_def Let_def
      split: sum.splits option.splits py_exn.splits)

lemma report_outcome_signals:
  "(\<exists>e. fst (report_outcome B env w exit_code out err) = Some e \<and>
        emitted (snd (report_outcome B env w exit_code out err)) = emitted w) \<or>
   (\<exists>msg. fst (report_outcome B env w exit_code out err) = None \<and>
        emitted (snd (report_outcome B env w exit_code out err)) = emitted w @ [Error msg]) \<or>
   (\<exists>m res. fst (report_outcome B env w exit_code out err) = None \<and> exit_code = 0 \<and>
        emitted (snd (report_outcome B env w exit_code out err)) =
          emitted w @ [Progress 100 m, Finished res])"
  by (simp add: report_outcome_def Let_def emit_def split: sum.splits option.splits)

lemma run_handlers_signals:
  "emitted (snd (run_handlers env (None, w))) = emitted w"
  "\<exists>msg. emitted (snd (run_handlers env (Some e, w))) = emitted w @ [Error msg]"
  by (simp_all add: run_handlers_def Let_def emit_def split: option.splits py_exn.splits)

lemma signals_of_steps:
  fixes f :: "'s \<Rightarrow> 'e + 'a" and mon :: "'a list"
  assumes "map Inr mon = map f steps" "sg \<in> set mon"
  shows "\<exists>s \<in> set steps. f s = Inr sg"
proof -
  from assms(2) have "(Inr sg :: 'e + 'a) \<in> set (map Inr mon)" by simp
  then have "Inr sg \<in> set (map f steps)" by (simp only: assms(1))
  then show ?thesis by auto
qed

lemma monitor_percentages_sorted:
  assumes "value_positive sim = Inr True" "sorted_wrt (<) steps" "\<forall>s \<in> set steps. 0 < s"
    "map Inr mon = map (progress_signal B sim) steps"
  shows "sorted (List.map_filter percentage mon)"
  using assms(2-4)
proof (induction steps arbitrary: mon)
  case Nil
  then show ?case by (simp add: map_filter_simps)
next
  case (Cons s steps)
  from Cons.prems(3) obtain sg mon' where mon: "mon = sg # mon'"
    and sg: "progress_signal B sim s = Inr sg"
    and rest: "map Inr mon' = map (progress_signal B sim) steps"
    by (cases mon) auto
  from progress_signal_capped [OF sg] obtain p m where pm: "sg = Progress p m" by blast
  have "p \<le> q" if "q \<in> set (List.map_filter percentage mon')" for q
  proof -
    from that obtain sg' where in_mon: "sg' \<in> set mon'" and pq: "percentage sg' = Some q"
      by (auto simp: map_filter_def)
    from pq obtain m' where "sg' = Progress q m'" by (cases sg') simp_all
    with in_mon have sg': "Progress q m' \<in> set mon'" by simp
    from signals_of_steps [OF rest sg'] obtain s' where
      s': "s' \<in> set steps" "progress_signal B sim s' = Inr (Progress q m')" by blast
    from Cons.prems(1) s'(1) have "s \<le> s'" by auto
    moreover from Cons.prems(2) have "0 \<le> s" by simp
    ultimately show ?thesis
      using progress_signal_mono [OF assms(1) _ _ sg [unfolded pm] s'(2)] by simp
  qed
  moreover have "sorted (List.map_filter percentage mon')"
    using Cons.IH [OF _ _ rest] Cons.prems(1,2) by simp
  ultimately show ?case by (simp add: mon pm map_filter_simps)
qed

lemma monitor_percentages_capped:
  assumes "map Inr mon = map (progress_signal B sim) steps" "sg \<in> set mon"
  shows "\<exists>p m. sg = Progress p m \<and> p \<le> 95"
  using signals_of_steps [OF assms] progress_signal_capped by blast

lemma run_handlers_body:
  assumes "emitted (snd body) = sigs"
  shows "fst body = None \<Longrightarrow> emitted (snd (run_handlers env body)) = sigs"
    and "fst body = Some e \<Longrightarrow> \<exists>msg. emitted (snd (run_handlers env body)) = sigs @ [Error msg]"
  using assms run_handlers_signals(1) [of env "snd body"]
    run_handlers_signals(2) [of env e "snd body"]
  by (cases body; simp)+

lemma example_run_parts:
  "progress_signal B (PInt 1000) 290 = Inr (Progress 28 ''Step 290/1000 MCS'')"
  "progress_signal B (PFloat (Fin 1000)) 290 = Inr (Progress 28 ''Step 290/1000 MCS'')"
  "progress_signal B (PInt 1000) 10 = Inr (Progress 1 ''Step 10/1000 MCS'')"
  by (simp_all add: progress_signal_def float_eval str_int_def str_nat.simps digit_char_def)

lemmas run_eval = emitted_by_run_def run_def run_launch_def example_env_def example_worker_def
  early_env_def run_handlers_def emit_def Let_def monitor_progress_def
  monitor_loop.simps [of _ _ 0] monitor_loop.simps [of _ _ "Suc 0"] example_run_parts
  wait_for_process_def close_and_read_logs_def report_outcome_def save_run_metadata_def
  float_eval map_filter_simps str_int_def str_nat.simps digit_char_def

text \<open>
  Claim C5 fails as stated. In a run of 1000 steps whose child is seen once, at step 10,
  and then exits with code 0, the percentages are 0, 5, 10, 1, 100: the percentage of the
  monitor falls below the fixed 10, and 100 is emitted before the terminal signal.
\<close>

theorem run_progress_counterexample:
  "emitted_by_run literal_builtins early_env example_worker =
     Some [Progress 0 ''Initializing simulation: x'',
           Progress 5 ''Launching simulation process...'',
           Progress 10 ''Simulation running (PID: 4242), monitoring progress...'',
           Progress 1 ''Step 10/1000 MCS'',
           Progress 100 ''Simulation completed successfully!'',
           Finished \<lparr>res_exp_name = ''x'', res_exp_dir = ''experiments/x'',
             res_zarr_path = ''experiments/x/data.zarr'', res_final_step = 1000,
             res_parameters = [(''exp_name'', PStr ''x''), (''sim_time'', PInt 1000)],
             res_stdout = [], res_stderr = [], res_success = True\<rparr>]"
  by (simp add: run_eval)

text \<open>
  Claim C5, amended. In a run whose child process is eventually seen to have exited, the
  signals are, in this order: the fixed progress values 0, 5 and 10, as far as the launch
  gets; the progress signals of the monitor, each at most 95 and, for a positive
  \<^verbatim>\<open>sim_time\<close>, non-decreasing among themselves; and then either one error signal,
  or the progress value 100 followed by the finished signal, the latter only when the
  child's exit code is 0. So exactly one terminal signal is emitted and it is the last
  signal.
\<close>

theorem run_signal_order:
  assumes "child_polls env n = Exited"
  shows "\<exists>fixed mon final.
           emitted_by_run B env w = Some (emitted w @ fixed @ mon @ final) \<and>
           map percentage fixed \<in> {[Some 0], [Some 0, Some 5], [Some 0, Some 5, Some 10]} \<and>
           (\<forall>s \<in> set mon. \<exists>p m. s = Progress p m \<and> p \<le> 95) \<and>
           (value_positive (sim_time w) = Inr True \<longrightarrow> sorted (List.map_filter percentage mon)) \<and>
           ((\<exists>msg. final = [Error msg]) \<or>
            (\<exists>m res. final = [Progress 100 m, Finished res] \<and> process_wait env = Inr 0))"
proof -
  let ?l = "run_launch env w"
  from run_launch_signals [of env w] obtain fixed where
    fx: "emitted (snd ?l) = emitted w @ fixed"
      "map percentage fixed \<in> {[Some 0], [Some 0, Some 5], [Some 0, Some 5, Some 10]}"
      "sim_time (snd ?l) = sim_time w" by (elim exE conjE)
  have goal: ?thesis
    if "emitted_by_run B env w = Some (emitted w @ fixed @ mon @ final)"
      and "\<forall>s \<in> set mon. \<exists>p m. s = Progress p m \<and> p \<le> 95"
      and "value_positive (sim_time w) = Inr True \<longrightarrow> sorted (List.map_filter percentage mon)"
      and "(\<exists>msg. final = [Error msg]) \<or>
           (\<exists>m res. final = [Progress 100 m, Finished res] \<and> process_wait env = Inr 0)"
    for mon final
    apply (rule exI [of _ fixed])
    apply (rule exI [of _ mon])
    apply (rule exI [of _ final])
    apply (intro conjI)
        apply (rule that(1))
       apply (rule fx(2))
      apply (rule that(2))
     apply (rule that(3))
    apply (rule that(4))
    done
  show ?thesis
  proof (cases "fst ?l")
    case (Some e)
    then have "run B env w = Some (run_handlers env ?l)" by (simp add: run_def Let_def)
    moreover from run_handlers_body(2) [OF fx(1) Some] obtain msg where
      "emitted (snd (run_handlers env ?l)) = emitted w @ fixed @ [Error msg]" by auto
    ultimately have "emitted_by_run B env w = Some (emitted w @ fixed @ [] @ [Error msg])"
      by (simp add: emitted_by_run_def)
    then show ?thesis by (rule goal) (simp_all add: map_filter_simps)
  next
    case None
    from monitor_progress_signals [OF assms, of B "snd ?l"] obtain steps mon w2 where
      mp: "sorted_wrt (<) steps" "\<forall>s \<in> set steps. 0 < s"
        "map Inr mon = map (progress_signal B (sim_time w)) steps"
        "monitor_progress B env (snd ?l) = Some w2" "emitted w2 = emitted w @ fixed @ mon"
      by (auto simp: fx)
    have capped: "\<forall>s \<in> set mon. \<exists>p m. s = Progress p m \<and> p \<le> 95"
      using monitor_percentages_capped [OF mp(3)] by blast
    have sorted: "value_positive (sim_time w) = Inr True \<longrightarrow>
                  sorted (List.map_filter percentage mon)"
      using monitor_percentages_sorted [OF _ mp(1,2,3)] by blast
    let ?t = "wait_for_process env w2"
    from wait_for_process_signals [of env w2] mp(5) have
      wt: "emitted (snd ?t) = emitted w @ fixed @ mon"
        "\<And>exit_code out err. fst ?t = Inr (exit_code, out, err) \<Longrightarrow>
           process_wait env = Inr exit_code"
      by simp_all
    show ?thesis
    proof (cases "fst ?t")
      case (Inl e)
      then have "run B env w = Some (run_handlers env (Some e, snd ?t))"
        using None mp(4) by (simp add: run_def Let_def)
      moreover from run_handlers_body(2) [of "(Some e, snd ?t)" _ e env] wt(1) obtain msg where
        "emitted (snd (run_handlers env (Some e, snd ?t))) = emitted w @ fixed @ mon @ [Error msg]"
        by auto
      ultimately have "emitted_by_run B env w = Some (emitted w @ fixed @ mon @ [Error msg])"
        by (simp add: emitted_by_run_def)
      then show ?thesis using capped sorted by (rule goal) simp
    next
      case (Inr r)
      obtain exit_code out err where r: "r = (exit_code, out, err)" by (cases r)
      let ?o = "report_outcome B env (snd ?t) exit_code out err"
      from Inr r have run: "run B env w = Some (run_handlers env ?o)"
        using None mp(4) by (simp add: run_def Let_def)
      from wt(2) Inr r have code: "process_wait env = Inr exit_code" by simp
      from report_outcome_signals [of B env "snd ?t" exit_code out err]
      consider (raised) e where "fst ?o = Some e" "emitted (snd ?o) = emitted (snd ?t)"
        | (failed) msg where "fst ?o = None" "emitted (snd ?o) = emitted (snd ?t) @ [Error msg]"
        | (succeeded) m res where "fst ?o = None" "exit_code = 0"
            "emitted (snd ?o) = emitted (snd ?t) @ [Progress 100 m, Finished res]"
        by blast
      then show ?thesis
      proof cases
        case raised
        from run_handlers_body(2) [OF raised(2) raised(1), of env] obtain msg where
          "emitted (snd (run_handlers env ?o)) = emitted w @ fixed @ mon @ [Error msg]"
          by (auto simp: wt(1))
        with run have "emitted_by_run B env w = Some (emitted w @ fixed @ mon @ [Error msg])"
          by (simp add: emitted_by_run_def)
        then show ?thesis using capped sorted by (rule goal) simp
      next
        case failed
        from run_handlers_body(1) [OF failed(2) failed(1), of env]
        have "emitted (snd (run_handlers env ?o)) = emitted w @ fixed @ mon @ [Error msg]"
          by (simp add: wt(1))
        with run have "emitted_by_run B env w = Some (emitted w @ fixed @ mon @ [Error msg])"
          by (simp add: emitted_by_run_def)
        then show ?thesis using capped sorted by (rule goal) simp
      next
        case succeeded
        from run_handlers_body(1) [OF succeeded(3) succeeded(1), of env]
        have "emitted (snd (run_handlers env ?o)) =
              emitted w @ fixed @ mon @ [Progress 100 m, Finished res]"
          by (simp add: wt(1))
        with run have "emitted_by_run B env w =
                       Some (emitted w @ fixed @ mon @ [Progress 100 m, Finished res])"
          by (simp add: emitted_by_run_def)
        then show ?thesis using capped sorted
          by (rule goal) (use code succeeded(2) in simp)
      qed
    qed
  qed
qed

theorem run_signal_order_witness:
  "child_polls example_env 1 = Exited \<and> value_positive (sim_time example_worker) = Inr True \<and>
   (\<exists>fixed mon final.
      emitted_by_run literal_builtins example_env example_worker = Some (fixed @ mon @ final) \<and>
      sorted (List.map_filter percentage mon) \<and>
      ((\<exists>msg. final = [Error msg]) \<or>
       (\<exists>m res. final = [Progress 100 m, Finished res] \<and> process_wait example_env = Inr 0)))"
proof -
  have h: "child_polls example_env 1 = Exited" by (simp add: example_env_def)
  have p: "value_positive (sim_time example_worker) = Inr True"
    and e: "emitted example_worker = []"
    by (simp_all add: example_worker_def)
  from run_signal_order [OF h, of literal_builtins example_worker] h p show ?thesis
    unfolding e by (elim exE conjE) (simp, blast)
qed

text \<open>
  The exit of the child is needed: while the child is seen alive the monitoring loop
  goes on, and the waiting with its timeout of 24 hours comes only after the loop. A run
  whose child is never seen to have exited has no result and emits no terminal signal.
\<close>

lemma monitor_loop_exit_seen:
  assumes "monitor_loop B polls i last_step w = Some w'"
  shows "\<exists>n. polls n = Exited"
  using assms
proof (induction rule: monitor_loop.raw_induct [rotated, consumes 1])
  case (1 loop B polls i last_step w w')
  show ?case
  proof (cases "polls i")
    case Exited
    then show ?thesis by blast
  next
    case (Alive current_step)
    with 1(2) obtain j l v where "loop B polls j l v = Some w'"
      by (auto split: if_splits sum.splits)
    then show ?thesis by (rule 1(1))
  qed
qed

lemma run_needs_exit:
  assumes "\<forall>n. child_polls env n \<noteq> Exited" "fst (run_launch env w) = None"
  shows "run B env w = None"
proof -
  have "monitor_loop B (child_polls env) 0 0 ((snd (run_launch env w))\<lparr>monitoring := True\<rparr>) = None"
    using monitor_loop_exit_seen [of B "child_polls env" 0 0] assms(1)
    by (cases "monitor_loop B (child_polls env) 0 0 ((snd (run_launch env w))\<lparr>monitoring := True\<rparr>)")
       auto
  then show ?thesis using assms(2) by (simp add: run_def Let_def monitor_progress_def)
qed

text \<open>
  Claim C6 fails on the code. The percentage is computed in floating point as
  \<^verbatim>\<open>int((current_step / self.sim_time) * 100)\<close>: at step 290 of 1000 the quotient is
  rounded below 0.29, the product below 29, and the truncation gives 28, while
  \<open>\<lfloor>100 * 290 / 1000\<rfloor> = 29\<close>. The run of the example emits 0, 5, 10, 28, 100.
\<close>

theorem progress_percentage_rounding:
  "progress_signal B (PInt 1000) 290 = Inr (Progress 28 ''Step 290/1000 MCS'') \<and>
   progress_signal B (PFloat (Fin 1000)) 290 = Inr (Progress 28 ''Step 290/1000 MCS'') \<and>
   \<lfloor>100 * 290 / 1000 :: rat\<rfloor> = 29 \<and>
   map_option (List.map_filter percentage)
     (emitted_by_run literal_builtins example_env example_worker) = Some [0, 5, 10, 28, 100]"
  by (simp add: run_eval)

section \<open>The log files of one run\<close>

lemma launch_preserves_handles:
  "fst (run_launch env w) = None \<Longrightarrow>
   stdout_log (snd (run_launch env w)) = Opened \<and> stderr_log (snd (run_launch env w)) = Opened"
  by (simp add: run_launch_def Let_def emit_def split: sum.splits option.splits)

lemma wait_closes:
  "close_stdout_log env = None \<Longrightarrow>
   stdout_log (snd (wait_for_process env w)) = Closed \<and>
   stderr_log (snd (wait_for_process env w)) = Closed"
  by (simp add: wait_for_process_def close_and_read_logs_def Let_def
      split: sum.splits option.splits py_exn.splits)

lemma report_handles:
  "stdout_log (snd (report_outcome B env w c out err)) = stdout_log w \<and>
   stderr_log (snd (report_outcome B env w c out err)) = stderr_log w"
  by (simp add: report_outcome_def Let_def emit_def split: sum.splits option.splits)

lemma handlers_handles:
  "stdout_log (snd (run_handlers env body)) = stdout_log (snd body) \<and>
   stderr_log (snd (run_handlers env body)) = stderr_log (snd body)"
  by (simp add: run_handlers_def Let_def emit_def split: option.splits py_exn.splits)

lemma logs_closed_after_spawn:
  assumes "child_polls env n = Exited" "fst (run_launch env w) = None" "close_stdout_log env = None"
  shows "log_handles_after_run B env w = Some (Closed, Closed)"
proof -
  from monitor_progress_signals [OF assms(1), of B "snd (run_launch env w)"]
  obtain w2 where w2: "monitor_progress B env (snd (run_launch env w)) = Some w2" by blast
  let ?t = "wait_for_process env w2"
  have c: "stdout_log (snd ?t) = Closed" "stderr_log (snd ?t) = Closed"
    using wait_closes [OF assms(3), of w2] by simp_all
  show ?thesis
  proof (cases "fst ?t")
    case (Inl e)
    then have "run B env w = Some (run_handlers env (Some e, snd ?t))"
      using assms(2) w2 by (simp add: run_def Let_def)
    with c handlers_handles [of env "(Some e, snd ?t)"] show ?thesis
      by (simp add: log_handles_after_run_def)
  next
    case (Inr r)
    obtain exit_code out err where r: "r = (exit_code, out, err)" by (cases r)
    let ?o = "report_outcome B env (snd ?t) exit_code out err"
    from Inr r have "run B env w = Some (run_handlers env ?o)"
      using assms(2) w2 by (simp add: run_def Let_def)
    with c handlers_handles [of env ?o] report_handles [of B env "snd ?t" exit_code out err]
    show ?thesis by (simp add: log_handles_after_run_def)
  qed
qed

text \<open>
  Claim C8 fails on the code. The two log files are opened before the child is spawned,
  and the \<^verbatim>\<open>finally\<close> clause that closes them belongs to the \<^verbatim>\<open>try\<close> around the
  waiting only. When \<^verbatim>\<open>Popen\<close> raises, the run ends with both files open; when the
  second \<^verbatim>\<open>open\<close> raises, it ends with the first file open. In the run of the example,
  where the child is spawned, both are closed.
\<close>

theorem log_files_left_open:
  "log_handles_after_run literal_builtins (example_env\<lparr>popen := Inl OSError\<rparr>) example_worker =
     Some (Opened, Opened) \<and>
   log_handles_after_run literal_builtins (example_env\<lparr>open_stderr_log := Some OSError\<rparr>)
     example_worker = Some (Opened, Unopened) \<and>
   log_handles_after_run literal_builtins example_env example_worker = Some (Closed, Closed)"
  by (simp add: log_handles_after_run_def run_eval)

section \<open>Cancellation and the runs\<close>

text \<open>
  In the surroundings in which the child never exits the launch succeeds, and the run has
  no result: the worker stays in its monitoring loop and emits no terminal signal.
\<close>

lemma hung_launch: "fst (run_launch hung_env w) = None"
  by (simp add: run_launch_def hung_env_def example_env_def Let_def)

lemma hung_run: "emitted_by_run B hung_env w = None"
  using run_needs_exit [of hung_env w B] hung_launch
  by (simp add: emitted_by_run_def hung_env_def)

text \<open>
  Claim C7 fails on the code. \<^verbatim>\<open>cancel_batch\<close> is written to stop the runs (its
  documentation is \<^verbatim>\<open>Cancel all running simulations in batch\<close>, the comment on its
  loop \<^verbatim>\<open>Try to terminate all running threads\<close>), but all it does to a run is to
  call \<^verbatim>\<open>quit()\<close> on its thread and to wait for the thread for up to a second. It
  does not use the worker, which has no operation for cancelling, and it terminates no
  child process; a quit request ends the event loop of the thread and does not interrupt
  \<^verbatim>\<open>run\<close> while it is executing. So the run of a worker goes on as it would without
  the cancel request, and no run reaches a cancelled state. In the example batch, after a
  cancel request that the user confirms, the batch is finalized as cancelled, both
  threads have been asked to quit and the two workers are the ones that were started;
  when their children never exit, neither run comes to an end or emits a terminal
  signal.
\<close>

theorem cancel_leaves_runs_running:
  "finalizations (cancel_batch example_batch [True, True] Yes) = [BatchCancelledInfo 0 2] \<and>
   map snd (simulation_threads (cancel_batch example_batch [True, True] Yes)) =
     map snd (simulation_threads example_batch) \<and>
   map (\<lambda>(t, wk). (exp_name wk, quit_requested t, emitted_by_run literal_builtins hung_env wk))
     (simulation_threads (cancel_batch example_batch [True, True] Yes)) =
     [(''x_combo001'', True, None), (''x_combo002'', True, None)]"
proof -
  let ?ts = "simulation_threads (cancel_batch example_batch [True, True] Yes)"
  have fin: "finalizations (cancel_batch example_batch [True, True] Yes) = [BatchCancelledInfo 0 2]"
    by (simp add: cancel_batch_fields example_batch_state example_batch_finalizations)
  have wk: "map snd ?ts = map snd (simulation_threads example_batch)"
    by (rule cancel_batch_threads)
  have len: "length (simulation_threads example_batch) = 2"
    using arg_cong [OF example_batch_workers(1), of length] by simp
  have names: "map (exp_name \<circ> snd) ?ts = [''x_combo001'', ''x_combo002'']"
    using arg_cong [OF wk, of "map exp_name"] example_batch_workers(1) by simp
  from len obtain a b where ab: "simulation_threads example_batch = [a, b]"
    by (auto simp: numeral_2_eq_2 length_Suc_conv)
  have quits: "map (quit_requested \<circ> fst) ?ts = [True, True]"
    unfolding cancel_batch_threads(3) ab by (simp add: case_prod_unfold)
  from len have "length ?ts = 2" by (simp add: cancel_batch_thread_list)
  then obtain x y where xy: "?ts = [x, y]"
    by (auto simp: numeral_2_eq_2 length_Suc_conv)
  from names quits have "exp_name (snd x) = ''x_combo001''" "exp_name (snd y) = ''x_combo002''"
    "quit_requested (fst x)" "quit_requested (fst y)"
    unfolding xy by simp_all
  then have "map (\<lambda>(t, wk). (exp_name wk, quit_requested t, emitted_by_run literal_builtins hung_env wk))
               ?ts = [(''x_combo001'', True, None), (''x_combo002'', True, None)]"
    unfolding xy by (simp add: case_prod_unfold hung_run)
  with fin wk show ?thesis by (simp only: simp_thms)
qed

end
